theory Spec2Isabelle
  imports Complex_Main "HOL-Library.List_Lexorder"
begin

section \<open>The migration renamer \<^verbatim>\<open>scripts/rename_migrations_to_unix_ms.py\<close>\<close>

text \<open>
  The script lists \<^verbatim>\<open>src/migrations\<close>, keeps the entries whose suffix is \<^verbatim>\<open>.ts\<close>,
  sorts them, and for each name of the form \<^verbatim>\<open>YYYYMMDDHHMMSS_rest.ts\<close> plans a rename to
  \<^verbatim>\<open><unix_ms>_rest.ts\<close> and an SQL update of the migration table.  After the loop it
  prints both plans.

  A Python \<^verbatim>\<open>str\<close> is modelled as the list of its code points, each an \<^typ>\<open>int\<close>
  (what \<^verbatim>\<open>ord\<close> returns); \<^verbatim>\<open>str\<close> values and lists of them are compared
  lexicographically (\<^verbatim>\<open>List_Lexorder\<close>), as Python compares them.  Python integers
  are \<^typ>\<open>int\<close>.  Writing to standard output is taken to succeed.
\<close>

subsection \<open>Strings and decimal digits\<close>

type_synonym pystr = "int list"

text \<open>A string literal of the script, and one character of it.\<close>

definition str :: "string \<Rightarrow> pystr" where
  "str s = map of_char s"

definition cp :: "char \<Rightarrow> int" where
  "cp c = of_char c"

definition newline :: int where
  "newline = 10"

text \<open>
  In a \<^verbatim>\<open>str\<close> pattern \<^verbatim>\<open>\d\<close> matches every decimal digit of Unicode (category Nd), and
  \<^verbatim>\<open>int\<close> reads them all.  They come in runs of ten, from the digit zero to the digit
  nine; the table holds the code point of each zero (Unicode 14.0, the version of
  CPython 3.11; later versions add runs at the end).  The first run is \<^verbatim>\<open>0\<close> to \<^verbatim>\<open>9\<close>.
\<close>

definition ND_ZEROS :: "int list" where
  "ND_ZEROS =
     [48, 1632, 1776, 1984, 2406, 2534, 2662, 2790, 2918, 3046, 3174, 3302, 3430, 3558, 3664,
      3792, 3872, 4160, 4240, 6112, 6160, 6470, 6608, 6784, 6800, 6992, 7088, 7232, 7248, 42528,
      43216, 43264, 43472, 43504, 43600, 44016, 65296, 66720, 68912, 69734, 69872, 69942, 70096,
      70384, 70736, 70864, 71248, 71360, 71472, 71904, 72016, 72784, 73040, 73120, 92768, 92864,
      93008, 120782, 120792, 120802, 120812, 120822, 123200, 123632, 125264, 130032]"

definition digit_zero :: "int \<Rightarrow> int option" where
  "digit_zero c = find (\<lambda>z. z \<le> c \<and> c \<le> z + 9) ND_ZEROS"

text \<open>\<^verbatim>\<open>\d\<close> on one character, and the value that \<^verbatim>\<open>int\<close> gives a digit.\<close>

definition is_digit :: "int \<Rightarrow> bool" where
  "is_digit c \<longleftrightarrow> digit_zero c \<noteq> None"

definition digit_val :: "int \<Rightarrow> int" where
  "digit_val c = (case digit_zero c of None \<Rightarrow> 0 | Some z \<Rightarrow> c - z)"

definition digit_char :: "int \<Rightarrow> int" where
  "digit_char d = 48 + d"

text \<open>\<^verbatim>\<open>int(s)\<close> for a string \<open>s\<close> of decimal digits.\<close>

definition int_of_digits :: "pystr \<Rightarrow> int" where
  "int_of_digits s = foldl (\<lambda>acc c. 10 * acc + digit_val c) 0 s"

text \<open>\<^verbatim>\<open>str(n)\<close>, which is what the f-string \<^verbatim>\<open>f"{unix_ms}_{rest}"\<close> writes for an integer.\<close>

function str_digits :: "int \<Rightarrow> pystr" where
  "str_digits n = (if n < 10 then [digit_char n] else str_digits (n div 10) @ [digit_char (n mod 10)])"
  by pat_completeness auto
termination
  by (relation "measure nat") auto

declare str_digits.simps [simp del]

definition str_int :: "int \<Rightarrow> pystr" where
  "str_int n = (if n < 0 then cp CHR ''-'' # str_digits (- n) else str_digits n)"

subsection \<open>The file-name pattern\<close>

text \<open>
  \<^verbatim>\<open>pat = re.compile(r"^(\d{14})_(.+)\.ts$")\<close> and \<^verbatim>\<open>pat.match(name)\<close>, returning the two
  groups.  Without \<^verbatim>\<open>re.DOTALL\<close> the dot matches every character but the newline, and
  without \<^verbatim>\<open>re.MULTILINE\<close> the \<^verbatim>\<open>$\<close> matches at the end of the string and also just
  before a newline that ends the string.  The greedy \<^verbatim>\<open>.+\<close> is forced by the anchor:
  group 2 is everything between the first underscore and the final \<^verbatim>\<open>.ts\<close>.
\<close>

definition pat_match :: "pystr \<Rightarrow> (pystr \<times> pystr) option" where
  "pat_match s =
     (let ymdhms = take 14 s; r1 = drop 14 s in
      if length ymdhms = 14 \<and> list_all is_digit ymdhms then
        (case r1 of
           [] \<Rightarrow> None
         | u # r2 \<Rightarrow>
             if u = cp CHR ''_'' then
               (let r3 = (if r2 \<noteq> [] \<and> last r2 = newline then butlast r2 else r2);
                    rest = take (length r3 - 3) r3
                in if drop (length r3 - 3) r3 = str ''.ts'' \<and> rest \<noteq> [] \<and> newline \<notin> set rest
                   then Some (ymdhms, rest) else None)
             else None)
      else None)"

subsection \<open>Paths\<close>

text \<open>
  A \<^verbatim>\<open>pathlib.Path\<close> is the list of its parts; paths are compared as these lists are
  (\<^verbatim>\<open>PurePath.__lt__\<close> compares \<^verbatim>\<open>_cparts\<close> on a POSIX host).  A directory entry's
  name is one part: it is not empty and holds no \<^verbatim>\<open>/\<close>.
\<close>

type_synonym path = "pystr list"

definition MIG_DIR :: path where
  "MIG_DIR = [str ''src'', str ''migrations'']"

text \<open>The operator \<^verbatim>\<open>/\<close> with a one-part right operand.\<close>

definition joinpath :: "path \<Rightarrow> pystr \<Rightarrow> path" where
  "joinpath d n = d @ [n]"

text \<open>\<^verbatim>\<open>Path.iterdir\<close>: the directory's entries, in the order the system lists them.\<close>

definition iterdir :: "path \<Rightarrow> pystr list \<Rightarrow> path list" where
  "iterdir d listing = map (joinpath d) listing"

definition path_name :: "path \<Rightarrow> pystr" where
  "path_name p = (if p = [] then [] else last p)"

text \<open>\<^verbatim>\<open>str.rfind\<close> of one character: the last index where it occurs, or \<open>-1\<close>.\<close>

fun rfind :: "int \<Rightarrow> pystr \<Rightarrow> int" where
  "rfind c [] = - 1"
| "rfind c (x # xs) =
     (let r = rfind c xs in if 0 \<le> r then r + 1 else if x = c then 0 else - 1)"

definition path_suffix :: "path \<Rightarrow> pystr" where
  "path_suffix p =
     (let name = path_name p; i = rfind (cp CHR ''.'') name in
      if 0 < i \<and> i < int (length name) - 1 then drop (nat i) name else [])"

definition path_stem :: "path \<Rightarrow> pystr" where
  "path_stem p =
     (let name = path_name p; i = rfind (cp CHR ''.'') name in
      if 0 < i \<and> i < int (length name) - 1 then take (nat i) name else name)"

fun as_posix :: "path \<Rightarrow> pystr" where
  "as_posix [] = str ''.''"
| "as_posix [x] = x"
| "as_posix (x # y # ys) = x @ str ''/'' @ as_posix (y # ys)"

subsection \<open>Dates: \<^verbatim>\<open>datetime.py\<close>\<close>

datatype py_error = ValueError

record datetime =
  year :: int
  month :: int
  day :: int
  hour :: int
  minute :: int
  second :: int
  microsecond :: int

record timedelta =
  days :: int
  seconds :: int
  microseconds :: int

definition DAYS_IN_MONTH :: "int list" where
  "DAYS_IN_MONTH = [- 1, 31, 28, 31, 30, 31, 30, 31, 31, 30, 31, 30, 31]"

definition DAYS_BEFORE_MONTH :: "int list" where
  "DAYS_BEFORE_MONTH = [- 1, 0, 31, 59, 90, 120, 151, 181, 212, 243, 273, 304, 334]"

definition is_leap :: "int \<Rightarrow> bool" where
  "is_leap y \<longleftrightarrow> y mod 4 = 0 \<and> (y mod 100 \<noteq> 0 \<or> y mod 400 = 0)"

definition days_before_year :: "int \<Rightarrow> int" where
  "days_before_year y' = (let y = y' - 1 in y * 365 + y div 4 - y div 100 + y div 400)"

definition days_in_month :: "int \<Rightarrow> int \<Rightarrow> int" where
  "days_in_month y m = (if m = 2 \<and> is_leap y then 29 else DAYS_IN_MONTH ! nat m)"

definition days_before_month :: "int \<Rightarrow> int \<Rightarrow> int" where
  "days_before_month y m = DAYS_BEFORE_MONTH ! nat m + (if m > 2 \<and> is_leap y then 1 else 0)"

definition ymd2ord :: "int \<Rightarrow> int \<Rightarrow> int \<Rightarrow> int" where
  "ymd2ord y m d = days_before_year y + days_before_month y m + d"

text \<open>
  \<^verbatim>\<open>_check_date_fields\<close> and \<^verbatim>\<open>_check_time_fields\<close>: the constructors
  \<^verbatim>\<open>date(y, m, d)\<close> and \<^verbatim>\<open>datetime(y, m, d, H, M, S, us)\<close> raise \<^verbatim>\<open>ValueError\<close> when
  these fail.
\<close>

definition check_date_fields :: "int \<Rightarrow> int \<Rightarrow> int \<Rightarrow> bool" where
  "check_date_fields y m d \<longleftrightarrow>
     1 \<le> y \<and> y \<le> 9999 \<and> 1 \<le> m \<and> m \<le> 12 \<and> 1 \<le> d \<and> d \<le> days_in_month y m"

definition check_time_fields :: "int \<Rightarrow> int \<Rightarrow> int \<Rightarrow> int \<Rightarrow> bool" where
  "check_time_fields h mi s us \<longleftrightarrow>
     0 \<le> h \<and> h \<le> 23 \<and> 0 \<le> mi \<and> mi \<le> 59 \<and> 0 \<le> s \<and> s \<le> 59 \<and> 0 \<le> us \<and> us \<le> 999999"

definition toordinal :: "datetime \<Rightarrow> int" where
  "toordinal dt = ymd2ord (year dt) (month dt) (day dt)"

definition EPOCH :: datetime where
  "EPOCH = \<lparr>year = 1970, month = 1, day = 1, hour = 0, minute = 0, second = 0, microsecond = 0\<rparr>"

text \<open>\<^verbatim>\<open>datetime.__sub__\<close> for two datetimes in UTC.\<close>

definition datetime_sub :: "datetime \<Rightarrow> datetime \<Rightarrow> timedelta" where
  "datetime_sub a b =
     \<lparr>days = toordinal a - toordinal b,
      seconds = (second a + minute a * 60 + hour a * 3600) - (second b + minute b * 60 + hour b * 3600),
      microseconds = microsecond a - microsecond b\<rparr>"

text \<open>
  \<^verbatim>\<open>timedelta.total_seconds\<close>: a true division.  The model keeps the exact quotient; for
  the datetimes of the script it is an integer below \<open>2 ^ 53\<close> in size, which the
  float holds exactly (\<open>unix_ms_float_exact\<close>).
\<close>

definition total_seconds :: "timedelta \<Rightarrow> rat" where
  "total_seconds td =
     of_int ((days td * 86400 + seconds td) * 10 ^ 6 + microseconds td) / of_int (10 ^ 6)"

text \<open>
  \<^verbatim>\<open>datetime.timestamp\<close> of a datetime whose \<^verbatim>\<open>tzinfo\<close> is \<^verbatim>\<open>timezone.utc\<close>, which
  \<^verbatim>\<open>.replace(tzinfo=timezone.utc)\<close> has set on every datetime of the script.
\<close>

definition timestamp :: "datetime \<Rightarrow> rat" where
  "timestamp dt = total_seconds (datetime_sub dt EPOCH)"

text \<open>\<^verbatim>\<open>int(x)\<close> of a number: truncation towards zero.\<close>

definition py_int :: "rat \<Rightarrow> int" where
  "py_int x = (if 0 \<le> x then \<lfloor>x\<rfloor> else \<lceil>x\<rceil>)"

definition unix_ms :: "datetime \<Rightarrow> int" where
  "unix_ms dt = py_int (timestamp dt * 1000)"

text \<open>
  The whole seconds from the epoch to a datetime; for a datetime without microseconds
  this is its timestamp (\<open>timestamp_whole\<close>).
\<close>

definition epoch_seconds :: "datetime \<Rightarrow> int" where
  "epoch_seconds dt =
     (toordinal dt - toordinal EPOCH) * 86400 + (second dt + minute dt * 60 + hour dt * 3600)"

subsection \<open>\<^verbatim>\<open>datetime.strptime(ymdhms, "%Y%m%d%H%M%S")\<close>\<close>

text \<open>
  \<^verbatim>\<open>_strptime\<close> compiles the format into a regular expression, one group per directive,
  each group a list of alternatives that the matcher tries in order, going back to the
  next alternative when the rest of the expression fails:
  \<^verbatim>\<open>%Y (\d\d\d\d)  %m (1[0-2]|0[1-9]|[1-9])  %d (3[0-1]|[1-2]\d|0[1-9]|[1-9]| [1-9])
  %H (2[0-3]|[0-1]\d|\d)  %M ([0-5]\d|\d)  %S (6[0-1]|[0-5]\d|\d)\<close>.
  An alternative is a list of character classes; \<^verbatim>\<open>\d\<close> is any decimal digit, while a
  range such as \<^verbatim>\<open>[0-2]\<close> holds the characters it names only.
\<close>

type_synonym cclass = "int \<Rightarrow> bool"

definition rng :: "char \<Rightarrow> char \<Rightarrow> cclass" where
  "rng a b c \<longleftrightarrow> cp a \<le> c \<and> c \<le> cp b"

definition lit :: "char \<Rightarrow> cclass" where
  "lit a c \<longleftrightarrow> c = cp a"

fun match_atoms :: "cclass list \<Rightarrow> pystr \<Rightarrow> pystr option" where
  "match_atoms [] s = Some s"
| "match_atoms (a # as) [] = None"
| "match_atoms (a # as) (c # s) = (if a c then match_atoms as s else None)"

fun first_some :: "'a option list \<Rightarrow> 'a option" where
  "first_some [] = None"
| "first_some (None # xs) = first_some xs"
| "first_some (Some x # xs) = Some x"

fun match_groups :: "cclass list list list \<Rightarrow> pystr \<Rightarrow> (pystr list \<times> pystr) option" where
  "match_groups [] s = Some ([], s)"
| "match_groups (g # gs) s =
     first_some
       (map (\<lambda>alt. case match_atoms alt s of
                      None \<Rightarrow> None
                    | Some s' \<Rightarrow>
                        (case match_groups gs s' of
                           None \<Rightarrow> None
                         | Some (caps, r) \<Rightarrow> Some (take (length alt) s # caps, r)))
            g)"

definition re_Y :: "cclass list list" where
  "re_Y = [[is_digit, is_digit, is_digit, is_digit]]"

definition re_m :: "cclass list list" where
  "re_m = [[lit CHR ''1'', rng CHR ''0'' CHR ''2''], [lit CHR ''0'', rng CHR ''1'' CHR ''9''],
           [rng CHR ''1'' CHR ''9'']]"

definition re_d :: "cclass list list" where
  "re_d = [[lit CHR ''3'', rng CHR ''0'' CHR ''1''], [rng CHR ''1'' CHR ''2'', is_digit],
           [lit CHR ''0'', rng CHR ''1'' CHR ''9''], [rng CHR ''1'' CHR ''9''],
           [lit CHR '' '', rng CHR ''1'' CHR ''9'']]"

definition re_H :: "cclass list list" where
  "re_H = [[lit CHR ''2'', rng CHR ''0'' CHR ''3''], [rng CHR ''0'' CHR ''1'', is_digit], [is_digit]]"

definition re_M :: "cclass list list" where
  "re_M = [[rng CHR ''0'' CHR ''5'', is_digit], [is_digit]]"

definition re_S :: "cclass list list" where
  "re_S = [[lit CHR ''6'', rng CHR ''0'' CHR ''1''], [rng CHR ''0'' CHR ''5'', is_digit], [is_digit]]"

definition format_regex :: "cclass list list list" where
  "format_regex = [re_Y, re_m, re_d, re_H, re_M, re_S]"

text \<open>
  \<^verbatim>\<open>_strptime\<close> raises \<^verbatim>\<open>ValueError\<close> when the expression does not match, when it
  matches less than the whole string, and when \<^verbatim>\<open>datetime_date(year, month, day)\<close>
  rejects the date; \<^verbatim>\<open>_strptime_datetime\<close> then calls the \<^verbatim>\<open>datetime\<close> constructor,
  which rejects a second of 60 or 61.  The format has no \<^verbatim>\<open>%f\<close>: the fraction is 0.
  \<^verbatim>\<open>int\<close> skips the blank that the last alternative of \<^verbatim>\<open>%d\<close> admits.
\<close>

definition strptime :: "pystr \<Rightarrow> py_error + datetime" where
  "strptime data_string =
     (case match_groups format_regex data_string of
        None \<Rightarrow> Inl ValueError
      | Some (caps, r) \<Rightarrow>
          if r \<noteq> [] then Inl ValueError
          else
            (case caps of
               [Y, m, d, H, M, S] \<Rightarrow>
                 (let y = int_of_digits Y; mo = int_of_digits m; dd = int_of_digits (filter is_digit d);
                      h = int_of_digits H; mi = int_of_digits M; s = int_of_digits S
                  in if \<not> check_date_fields y mo dd then Inl ValueError
                     else if \<not> check_time_fields h mi s 0 then Inl ValueError
                     else Inr \<lparr>year = y, month = mo, day = dd, hour = h, minute = mi,
                               second = s, microsecond = 0\<rparr>)
             | _ \<Rightarrow> Inl ValueError))"

subsection \<open>The script\<close>

text \<open>
  The state of a run: the two lists the loop builds, and what has been written to
  standard output, one element per \<^verbatim>\<open>print\<close> call (each is followed by a line break).
  A run ends normally (\<open>None\<close>) or with an uncaught exception (\<open>Some e\<close>), which
  stops it in the state reached.
\<close>

record state =
  renames :: "(path \<times> path) list"
  sql_updates :: "(pystr \<times> pystr) list"
  stdout :: "pystr list"

definition squote :: int where
  "squote = 39"

definition print :: "pystr \<Rightarrow> state \<Rightarrow> state" where
  "print s st = st\<lparr>stdout := stdout st @ [s]\<rparr>"

text \<open>The body of \<^verbatim>\<open>for p in files\<close>.\<close>

definition loop_body :: "path \<Rightarrow> state \<Rightarrow> py_error option \<times> state" where
  "loop_body p st =
     (case pat_match (path_name p) of
        None \<Rightarrow> (None, st)
      | Some (ymdhms, rest) \<Rightarrow>
          (case strptime ymdhms of
             Inl e \<Rightarrow> (Some e, st)
           | Inr dt \<Rightarrow>
               (let ms = unix_ms dt;
                    old_base = path_stem p;
                    new_base = str_int ms @ str ''_'' @ rest;
                    new_name = new_base @ str ''.ts''
                in if new_name = path_name p then (None, st)
                   else (None, st\<lparr>renames := renames st @ [(p, joinpath MIG_DIR new_name)],
                                     sql_updates := sql_updates st @ [(old_base, new_base)]\<rparr>))))"

fun for_loop :: "path list \<Rightarrow> state \<Rightarrow> py_error option \<times> state" where
  "for_loop [] st = (None, st)"
| "for_loop (p # ps) st =
     (case loop_body p st of
        (Some e, st') \<Rightarrow> (Some e, st')
      | (None, st') \<Rightarrow> for_loop ps st')"

definition mv_line :: "path \<times> path \<Rightarrow> pystr" where
  "mv_line r = (case r of (oldp, newp) \<Rightarrow> str ''mv '' @ as_posix oldp @ str '' '' @ as_posix newp)"

definition sql_line :: "pystr \<times> pystr \<Rightarrow> pystr" where
  "sql_line u =
     (case u of (old_base, new_base) \<Rightarrow>
        str ''update inventory_schema_migrations set name='' @ [squote] @ new_base @ [squote]
        @ str '' where name='' @ [squote] @ old_base @ [squote] @ str '';'')"

fun print_renames :: "(path \<times> path) list \<Rightarrow> state \<Rightarrow> state" where
  "print_renames [] st = st"
| "print_renames (r # rs) st = print_renames rs (print (mv_line r) st)"

fun print_sql_updates :: "(pystr \<times> pystr) list \<Rightarrow> state \<Rightarrow> state" where
  "print_sql_updates [] st = st"
| "print_sql_updates (u # us) st = print_sql_updates us (print (sql_line u) st)"

definition mv_header :: pystr where
  "mv_header = str ''# mv commands:''"

definition sql_header :: pystr where
  "sql_header = newline # str ''# SQL updates for inventory_schema_migrations (run these in psql):''"

text \<open>\<^verbatim>\<open>files = sorted([p for p in MIG_DIR.iterdir() if p.suffix == ".ts"])\<close>\<close>

definition files :: "pystr list \<Rightarrow> path list" where
  "files listing = sort (filter (\<lambda>p. path_suffix p = str ''.ts'') (iterdir MIG_DIR listing))"

text \<open>
  The module body, run on the names that the directory \<^verbatim>\<open>src/migrations\<close> holds.
\<close>

definition main :: "pystr list \<Rightarrow> py_error option \<times> state" where
  "main listing =
     (let st0 = \<lparr>renames = [], sql_updates = [], stdout = []\<rparr>
      in case for_loop (files listing) st0 of
           (Some e, st) \<Rightarrow> (Some e, st)
         | (None, st) \<Rightarrow>
             (let st1 = print mv_header st;
                  st2 = print_renames (renames st1) st1;
                  st3 = print sql_header st2;
                  st4 = print_sql_updates (sql_updates st3) st3
              in (None, st4)))"

subsection \<open>What one pass of the loop does, as a value\<close>

text \<open>
  For the proofs, the effect of the loop body on a path \<open>p\<close> is read off as a value:
  an exception, nothing, or the pair of entries it appends.
\<close>

type_synonym entry = "(path \<times> path) \<times> (pystr \<times> pystr)"

definition plan :: "path \<Rightarrow> py_error + entry option" where
  "plan p =
     (case pat_match (path_name p) of
        None \<Rightarrow> Inr None
      | Some (ymdhms, rest) \<Rightarrow>
          (case strptime ymdhms of
             Inl e \<Rightarrow> Inl e
           | Inr dt \<Rightarrow>
               (let new_base = str_int (unix_ms dt) @ str ''_'' @ rest; new_name = new_base @ str ''.ts''
                in if new_name = path_name p then Inr None
                   else Inr (Some ((p, joinpath MIG_DIR new_name), (path_stem p, new_base))))))"

definition add_entry :: "entry \<Rightarrow> state \<Rightarrow> state" where
  "add_entry e st = st\<lparr>renames := renames st @ [fst e], sql_updates := sql_updates st @ [snd e]\<rparr>"

fun entries :: "path list \<Rightarrow> entry list" where
  "entries [] = []"
| "entries (p # ps) =
     (case plan p of
        Inl e \<Rightarrow> []
      | Inr None \<Rightarrow> entries ps
      | Inr (Some e) \<Rightarrow> e # entries ps)"

fun first_error :: "path list \<Rightarrow> py_error option" where
  "first_error [] = None"
| "first_error (p # ps) = (case plan p of Inl e \<Rightarrow> Some e | Inr x \<Rightarrow> first_error ps)"

subsection \<open>The vocabulary of the properties\<close>

text \<open>
  The digits \<^verbatim>\<open>0\<close> to \<^verbatim>\<open>9\<close>; the calendar fields that a string of 14 decimal
  digits holds, read by position, and when they are a date and time of the calendar as
  \<^verbatim>\<open>datetime\<close> has it (years 1 to 9999).
\<close>

definition ascii_digit :: "int \<Rightarrow> bool" where
  "ascii_digit c \<longleftrightarrow> 48 \<le> c \<and> c \<le> 57"

text \<open>A string with each of its decimal digits written as one of \<^verbatim>\<open>0\<close> to \<^verbatim>\<open>9\<close>.\<close>

definition ascii_digits :: "pystr \<Rightarrow> pystr" where
  "ascii_digits s = map (\<lambda>c. if is_digit c then digit_char (digit_val c) else c) s"

definition fields :: "pystr \<Rightarrow> datetime" where
  "fields s =
     \<lparr>year = int_of_digits (take 4 s), month = int_of_digits (take 2 (drop 4 s)),
      day = int_of_digits (take 2 (drop 6 s)), hour = int_of_digits (take 2 (drop 8 s)),
      minute = int_of_digits (take 2 (drop 10 s)), second = int_of_digits (take 2 (drop 12 s)),
      microsecond = 0\<rparr>"

definition valid_timestamp :: "pystr \<Rightarrow> bool" where
  "valid_timestamp s \<longleftrightarrow>
     length s = 14 \<and> list_all is_digit s \<and>
     (let dt = fields s in
      1 \<le> year dt \<and> 1 \<le> month dt \<and> month dt \<le> 12 \<and>
      1 \<le> day dt \<and> day dt \<le> days_in_month (year dt) (month dt) \<and>
      hour dt \<le> 23 \<and> minute dt \<le> 59 \<and> second dt \<le> 59)"

text \<open>
  The way back, for the round-trip property: \<^verbatim>\<open>_ord2ymd\<close> of \<^verbatim>\<open>datetime.py\<close> turns a
  day number into year, month and day; \<open>utc_of_ms\<close> is the UTC date and time of a
  number of milliseconds since the epoch; \<open>strftime14\<close> writes the six fields with
  leading zeros, four digits for the year and two for the others.
\<close>

definition month_day :: "bool \<Rightarrow> int \<Rightarrow> int \<times> int" where
  "month_day leapyear n =
     (let month = (n + 50) div 32;
          preceding = DAYS_BEFORE_MONTH ! nat month + (if month > 2 \<and> leapyear then 1 else 0)
      in if preceding > n then
           (let month' = month - 1;
                preceding' = preceding - (DAYS_IN_MONTH ! nat month'
                                          + (if month' = 2 \<and> leapyear then 1 else 0))
            in (month', n - preceding' + 1))
         else (month, n - preceding + 1))"

definition ord2ymd :: "int \<Rightarrow> int \<times> int \<times> int" where
  "ord2ymd n0 =
     (let n = n0 - 1;
          n400 = n div 146097; r400 = n mod 146097;
          n100 = r400 div 36524; r100 = r400 mod 36524;
          n4 = r100 div 1461; r4 = r100 mod 1461;
          n1 = r4 div 365; r1 = r4 mod 365;
          y = n400 * 400 + 1 + n100 * 100 + n4 * 4 + n1
      in if n1 = 4 \<or> n100 = 4 then (y - 1, 12, 31)
         else (let leapyear = (n1 = 3 \<and> (n4 \<noteq> 24 \<or> n100 = 3));
                   md = month_day leapyear r1
               in (y, fst md, snd md)))"

definition utc_of_ms :: "int \<Rightarrow> datetime" where
  "utc_of_ms ms =
     (let secs = ms div 1000; d = secs div 86400; r = secs mod 86400;
          ymd = ord2ymd (d + toordinal EPOCH)
      in \<lparr>year = fst ymd, month = fst (snd ymd), day = snd (snd ymd),
          hour = r div 3600, minute = r mod 3600 div 60, second = r mod 60,
          microsecond = ms mod 1000 * 1000\<rparr>)"

definition pad2 :: "int \<Rightarrow> pystr" where
  "pad2 n = [digit_char (n div 10 mod 10), digit_char (n mod 10)]"

definition pad4 :: "int \<Rightarrow> pystr" where
  "pad4 n = [digit_char (n div 1000 mod 10), digit_char (n div 100 mod 10),
             digit_char (n div 10 mod 10), digit_char (n mod 10)]"

definition strftime14 :: "datetime \<Rightarrow> pystr" where
  "strftime14 dt =
     pad4 (year dt) @ pad2 (month dt) @ pad2 (day dt) @ pad2 (hour dt) @ pad2 (minute dt)
     @ pad2 (second dt)"

text \<open>
  The integer that a new base name starts with, up to its first underscore
  (\<^verbatim>\<open>int(new_base.split("_")[0])\<close>).
\<close>

definition ms_of_base :: "pystr \<Rightarrow> int" where
  "ms_of_base b =
     (let t = takeWhile (\<lambda>c. c \<noteq> cp CHR ''_'') b in
      case t of
        [] \<Rightarrow> 0
      | c # ds \<Rightarrow> if c = cp CHR ''-'' then - int_of_digits ds else int_of_digits t)"

definition roundtrip :: "pystr \<Rightarrow> pystr" where
  "roundtrip new_base = strftime14 (utc_of_ms (ms_of_base new_base))"

text \<open>The report of a run that ends normally, from the entries of its loop.\<close>

definition report :: "entry list \<Rightarrow> pystr list" where
  "report es = mv_header # map mv_line (map fst es) @ sql_header # map sql_line (map snd es)"

text \<open>The names that the files have once the printed \<^verbatim>\<open>mv\<close> commands have run.\<close>

definition renamed :: "state \<Rightarrow> pystr list" where
  "renamed st = map (\<lambda>r. path_name (snd r)) (renames st)"

section \<open>Properties\<close>

subsection \<open>Strings and digits\<close>

text \<open>The literals of the script, as code points.\<close>

lemma literals [simp]:
  "str ''.ts'' = [46, 116, 115]" "str ''_'' = [95]"
  "cp CHR ''_'' = 95" "cp CHR ''.'' = 46" "cp CHR ''-'' = 45"
  by (simp_all add: str_def cp_def)

lemma cp_digits [simp]:
  "cp CHR ''0'' = 48" "cp CHR ''1'' = 49" "cp CHR ''2'' = 50" "cp CHR ''3'' = 51"
  "cp CHR ''4'' = 52" "cp CHR ''5'' = 53" "cp CHR ''6'' = 54" "cp CHR ''7'' = 55"
  "cp CHR ''8'' = 56" "cp CHR ''9'' = 57" "cp CHR '' '' = 32"
  by (simp_all add: cp_def)

lemma find_holds: "find P xs = Some x \<Longrightarrow> P x"
  by (induction xs) (auto split: if_splits)

lemma digit_zero_range: "digit_zero c = Some z \<Longrightarrow> z \<le> c \<and> c \<le> z + 9"
  unfolding digit_zero_def by (drule find_holds) simp

lemma is_digit_val: "is_digit c \<Longrightarrow> 0 \<le> digit_val c \<and> digit_val c \<le> 9"
  using digit_zero_range [of c] by (auto simp: is_digit_def digit_val_def)

lemma ascii_digitD:
  assumes "ascii_digit c"
  shows "is_digit c" "digit_val c = c - 48" "48 \<le> c" "c \<le> 57"
  using assms by (simp_all add: ascii_digit_def is_digit_def digit_val_def digit_zero_def ND_ZEROS_def)

lemma ascii_digits_are_digits: "list_all ascii_digit s \<Longrightarrow> list_all is_digit s"
  by (induction s) (simp_all add: ascii_digitD)

lemma not_digit [simp]: "\<not> is_digit 95" "\<not> is_digit 45" "\<not> is_digit 46" "\<not> is_digit 32"
  by (simp_all add: is_digit_def digit_zero_def ND_ZEROS_def)

lemma digit_char_ascii: "0 \<le> d \<Longrightarrow> d \<le> 9 \<Longrightarrow> ascii_digit (digit_char d)"
  by (simp add: digit_char_def ascii_digit_def)

lemma is_digit_digit_char: "0 \<le> d \<Longrightarrow> d \<le> 9 \<Longrightarrow> is_digit (digit_char d)"
  by (intro ascii_digitD(1) digit_char_ascii)

lemma digit_val_digit_char: "0 \<le> d \<Longrightarrow> d \<le> 9 \<Longrightarrow> digit_val (digit_char d) = d"
  using ascii_digitD(2) [OF digit_char_ascii, of d] by (simp add: digit_char_def)

lemma digit_char_digit_val: "is_digit c \<Longrightarrow> digit_char (digit_val c) = 48 + digit_val c"
  by (simp add: digit_char_def)

lemma int_of_digits_2 [simp]: "int_of_digits [a, b] = 10 * digit_val a + digit_val b"
  by (simp add: int_of_digits_def)

lemma int_of_digits_4 [simp]:
  "int_of_digits [a, b, c, d] = 1000 * digit_val a + 100 * digit_val b + 10 * digit_val c + digit_val d"
  by (simp add: int_of_digits_def)

lemma ascii_digits_ascii: "list_all ascii_digit s \<Longrightarrow> ascii_digits s = s"
  by (induction s) (simp_all add: ascii_digits_def ascii_digitD digit_char_def)

lemma int_of_digits_snoc: "int_of_digits (s @ [c]) = 10 * int_of_digits s + digit_val c"
  by (simp add: int_of_digits_def)

subsection \<open>The loop\<close>

lemma loop_body_plan:
  "loop_body p st =
     (case plan p of
        Inl e \<Rightarrow> (Some e, st)
      | Inr None \<Rightarrow> (None, st)
      | Inr (Some e) \<Rightarrow> (None, add_entry e st))"
  by (simp add: loop_body_def plan_def add_entry_def Let_def split: option.splits sum.splits prod.splits)

lemma for_loop_plan:
  "for_loop ps st =
     (first_error ps,
      st\<lparr>renames := renames st @ map fst (entries ps),
         sql_updates := sql_updates st @ map snd (entries ps)\<rparr>)"
proof (induction ps arbitrary: st)
  case Nil
  show ?case by simp
next
  case (Cons p ps)
  show ?case
  proof (cases "plan p")
    case (Inl e)
    then show ?thesis by (simp add: loop_body_plan)
  next
    case (Inr x)
    show ?thesis
    proof (cases x)
      case None
      with Inr Cons.IH [of st] show ?thesis by (simp add: loop_body_plan)
    next
      case (Some e)
      with Inr Cons.IH [of "add_entry e st"] show ?thesis
        by (simp add: loop_body_plan add_entry_def)
    qed
  qed
qed

lemma print_renames_stdout:
  "print_renames rs st = st\<lparr>stdout := stdout st @ map mv_line rs\<rparr>"
  by (induction rs arbitrary: st) (simp_all add: print_def)

lemma print_sql_updates_stdout:
  "print_sql_updates us st = st\<lparr>stdout := stdout st @ map sql_line us\<rparr>"
  by (induction us arbitrary: st) (simp_all add: print_def)

lemma main_plan:
  "main listing =
     (first_error (files listing),
      \<lparr>renames = map fst (entries (files listing)),
       sql_updates = map snd (entries (files listing)),
       stdout = (case first_error (files listing) of
                   Some e \<Rightarrow> []
                 | None \<Rightarrow> report (entries (files listing)))\<rparr>)"
  by (cases "first_error (files listing)")
     (simp_all add: main_def for_loop_plan print_renames_stdout print_sql_updates_stdout
        print_def report_def)

subsection \<open>Paths and names\<close>

lemma path_name_joinpath [simp]: "path_name (joinpath d n) = n"
  by (simp add: path_name_def joinpath_def)

lemma joinpath_le: "joinpath d a \<le> joinpath d b \<longleftrightarrow> a \<le> b"
  by (induction d) (auto simp: joinpath_def)

lemma rfind_ge: "- 1 \<le> rfind c xs"
  by (induction xs) (simp_all add: Let_def)

lemma rfind_notin: "c \<notin> set xs \<Longrightarrow> rfind c xs = - 1"
  by (induction xs) (auto simp: Let_def)

lemma rfind_append: "c \<notin> set ys \<Longrightarrow> rfind c (xs @ c # ys) = int (length xs)"
  by (induction xs) (simp_all add: Let_def rfind_notin)

lemma rfind_lt: "rfind c xs < int (length xs)"
  by (induction xs) (simp_all add: Let_def)

lemma rfind_nth: "0 \<le> rfind c xs \<Longrightarrow> xs ! nat (rfind c xs) = c"
proof (induction xs)
  case Nil
  then show ?case by simp
next
  case (Cons x xs)
  show ?case
  proof (cases "0 \<le> rfind c xs")
    case True
    with Cons.IH have "xs ! nat (rfind c xs) = c" by simp
    with True show ?thesis by (simp add: Let_def nat_add_distrib)
  next
    case False
    with Cons.prems show ?thesis by (simp add: Let_def split: if_splits)
  qed
qed

lemma rfind_after: "0 \<le> rfind c xs \<Longrightarrow> c \<notin> set (drop (Suc (nat (rfind c xs))) xs)"
proof (induction xs)
  case Nil
  then show ?case by simp
next
  case (Cons x xs)
  show ?case
  proof (cases "0 \<le> rfind c xs")
    case True
    with Cons.IH have "c \<notin> set (drop (Suc (nat (rfind c xs))) xs)" by simp
    with True show ?thesis by (simp add: Let_def nat_add_distrib)
  next
    case False
    with rfind_ge [of c xs] have "rfind c xs = - 1" by simp
    moreover have "c \<notin> set xs"
    proof
      assume "c \<in> set xs"
      then obtain as bs where "xs = as @ c # bs" "c \<notin> set bs"
        by (meson split_list_last)
      with rfind_append [of c bs as] False show False by simp
    qed
    ultimately show ?thesis using Cons.prems by (simp add: Let_def split: if_splits)
  qed
qed

lemma path_stem_ts: "b \<noteq> [] \<Longrightarrow> path_stem (joinpath d (b @ str ''.ts'')) = b"
  using rfind_append [of 46 "[116, 115]" b]
  by (simp add: path_stem_def Let_def)

lemma path_suffix_ts: "b \<noteq> [] \<Longrightarrow> path_suffix (joinpath d (b @ str ''.ts'')) = str ''.ts''"
  using rfind_append [of 46 "[116, 115]" b]
  by (simp add: path_suffix_def Let_def)

lemma path_stem_suffix: "path_stem p @ path_suffix p = path_name p"
  by (simp add: path_stem_def path_suffix_def Let_def)

lemma path_suffix_ts_name:
  assumes "path_suffix p = str ''.ts''"
  shows "path_name p = path_stem p @ str ''.ts''"
  using path_stem_suffix [of p] assms by simp

subsection \<open>The pattern\<close>

lemma pat_matchD:
  assumes "pat_match s = Some (y, r)"
  shows "length y = 14" "list_all is_digit y" "r \<noteq> []" "newline \<notin> set r"
    "s = y @ str ''_'' @ r @ str ''.ts'' \<or> s = y @ str ''_'' @ r @ str ''.ts'' @ [newline]"
proof -
  from assms have y: "y = take 14 s" and ly: "length (take 14 s) = 14" and dy: "list_all is_digit (take 14 s)"
    by (auto simp: pat_match_def Let_def split: if_splits list.splits)
  from assms obtain r2 where r2: "drop 14 s = cp CHR ''_'' # r2"
    by (auto simp: pat_match_def Let_def split: if_splits list.splits)
  define r3 where "r3 = (if r2 \<noteq> [] \<and> last r2 = newline then butlast r2 else r2)"
  from assms r2 have ts: "drop (length r3 - 3) r3 = str ''.ts''" and r: "r = take (length r3 - 3) r3"
    and rne: "r \<noteq> []" and nl: "newline \<notin> set r"
    by (auto simp: pat_match_def Let_def r3_def split: if_splits list.splits)
  have r3: "r3 = r @ str ''.ts''"
    using append_take_drop_id [of "length r3 - 3" r3] ts r by simp
  have "r2 = r3 \<or> r2 = r3 @ [newline]"
  proof (cases "r2 \<noteq> [] \<and> last r2 = newline")
    case True
    then have "butlast r2 @ [newline] = r2"
      using append_butlast_last_id [of r2] by simp
    with True show ?thesis by (simp add: r3_def)
  next
    case False
    then show ?thesis by (auto simp: r3_def)
  qed
  moreover have "s = y @ cp CHR ''_'' # r2"
    using append_take_drop_id [of 14 s] r2 y by simp
  ultimately show "s = y @ str ''_'' @ r @ str ''.ts'' \<or> s = y @ str ''_'' @ r @ str ''.ts'' @ [newline]"
    using r3 by auto
  show "length y = 14" "list_all is_digit y" "r \<noteq> []" "newline \<notin> set r"
    using y ly dy rne nl by simp_all
qed

lemma pat_matchI:
  assumes "length y = 14" "list_all is_digit y" "r \<noteq> []" "newline \<notin> set r"
  shows "pat_match (y @ str ''_'' @ r @ str ''.ts'') = Some (y, r)"
  using assms by (simp add: pat_match_def Let_def newline_def)

subsection \<open>Entries\<close>

lemma plan_SomeD:
  assumes "plan p = Inr (Some e)"
  obtains ymdhms rest dt where
    "pat_match (path_name p) = Some (ymdhms, rest)" "strptime ymdhms = Inr dt"
    "e = ((p, joinpath MIG_DIR (str_int (unix_ms dt) @ str ''_'' @ rest @ str ''.ts'')),
          (path_stem p, str_int (unix_ms dt) @ str ''_'' @ rest))"
    "str_int (unix_ms dt) @ str ''_'' @ rest @ str ''.ts'' \<noteq> path_name p"
  using assms
  by (auto simp: plan_def Let_def split: option.splits sum.splits if_splits)

lemma entries_set: "e \<in> set (entries ps) \<Longrightarrow> \<exists>p\<in>set ps. plan p = Inr (Some e)"
  by (induction ps) (auto split: sum.splits option.splits)

lemma files_set: "p \<in> set (files listing) \<longleftrightarrow> (\<exists>n\<in>set listing. p = joinpath MIG_DIR n \<and> path_suffix p = str ''.ts'')"
  by (auto simp: files_def iterdir_def)

lemma entry_stems:
  assumes "plan p = Inr (Some e)"
  shows "snd e = (path_stem (fst (fst e)), path_stem (snd (fst e)))"
proof -
  from assms obtain ymdhms :: pystr and rest dt where
    e: "e = ((p, joinpath MIG_DIR (str_int (unix_ms dt) @ str ''_'' @ rest @ str ''.ts'')),
          (path_stem p, str_int (unix_ms dt) @ str ''_'' @ rest))"
    by (rule plan_SomeD)
  have "path_stem (joinpath MIG_DIR ((str_int (unix_ms dt) @ str ''_'' @ rest) @ str ''.ts'')) = str_int (unix_ms dt) @ str ''_'' @ rest"
    by (rule path_stem_ts) simp
  with e show ?thesis by simp
qed

lemma entries_stems:
  "map snd (entries ps) = map (\<lambda>r. (path_stem (fst r), path_stem (snd r))) (map fst (entries ps))"
proof -
  have "\<forall>e\<in>set (entries ps). snd e = (path_stem (fst (fst e)), path_stem (snd (fst e)))"
    using entries_set entry_stems by blast
  then show ?thesis by (simp add: comp_def)
qed

subsection \<open>Two runs\<close>

lemma run_create_orders:
  "main [str ''20230615143000_create_orders.ts''] =
     (None,
      \<lparr>renames = [(joinpath MIG_DIR (str ''20230615143000_create_orders.ts''),
                    joinpath MIG_DIR (str ''1686839400000_create_orders.ts''))],
       sql_updates = [(str ''20230615143000_create_orders'', str ''1686839400000_create_orders'')],
       stdout = [str ''# mv commands:'',
                 str ''mv src/migrations/20230615143000_create_orders.ts src/migrations/1686839400000_create_orders.ts'',
                 newline # str ''# SQL updates for inventory_schema_migrations (run these in psql):'',
                 str ''update inventory_schema_migrations set name='' @ [squote]
                 @ str ''1686839400000_create_orders'' @ [squote] @ str '' where name='' @ [squote]
                 @ str ''20230615143000_create_orders'' @ [squote] @ str '';'']\<rparr>)"
  by code_simp

lemma run_month_13:
  "main [str ''20230615143000_create_orders.ts'', str ''20231301000000_x.ts''] =
     (Some ValueError,
      \<lparr>renames = [(joinpath MIG_DIR (str ''20230615143000_create_orders.ts''),
                    joinpath MIG_DIR (str ''1686839400000_create_orders.ts''))],
       sql_updates = [(str ''20230615143000_create_orders'', str ''1686839400000_create_orders'')],
       stdout = []\<rparr>)"
  by code_simp

subsection \<open>The two lists go together\<close>

text \<open>
  Claim C7.  In the state a run ends in, whether it ends normally or with an exception,
  the list of SQL update entries is as long as the list of rename entries, and the
  entry at each index is the pair of the base names (the file names without their last
  suffix) of the original path and of the new path of the rename entry at that index.
\<close>

theorem sql_updates_mirror_renames:
  "length (sql_updates (snd (main listing))) = length (renames (snd (main listing))) \<and>
   (\<forall>i < length (renames (snd (main listing))).
      sql_updates (snd (main listing)) ! i =
        (path_stem (fst (renames (snd (main listing)) ! i)),
         path_stem (snd (renames (snd (main listing)) ! i))))"
proof -
  have "sql_updates (snd (main listing)) =
        map (\<lambda>r. (path_stem (fst r), path_stem (snd r))) (renames (snd (main listing)))"
    using entries_stems [of "files listing"] by (simp add: main_plan)
  then show ?thesis by simp
qed

theorem sql_updates_mirror_renames_witness:
  "0 < length (renames (snd (main [str ''20230615143000_create_orders.ts''])))
   \<and> sql_updates (snd (main [str ''20230615143000_create_orders.ts''])) ! 0 =
       (path_stem (fst (renames (snd (main [str ''20230615143000_create_orders.ts''])) ! 0)),
        path_stem (snd (renames (snd (main [str ''20230615143000_create_orders.ts''])) ! 0)))"
proof -
  have h: "0 < length (renames (snd (main [str ''20230615143000_create_orders.ts''])))"
    by (simp add: run_create_orders)
  from sql_updates_mirror_renames [of "[str ''20230615143000_create_orders.ts'']"] h
  show ?thesis by blast
qed

subsection \<open>Nothing is printed before the loop has ended\<close>

text \<open>
  Claim C10.  The loop writes nothing to standard output, whatever the files and the
  state it starts in, and a run that ends with an exception has printed nothing: the
  scan and the transformation of every entry come before the first \<^verbatim>\<open>print\<close>.
\<close>

theorem no_output_before_loop_ends:
  "stdout (snd (for_loop ps st)) = stdout st \<and>
   (fst (main listing) = Some e \<longrightarrow> stdout (snd (main listing)) = [])"
  by (simp add: for_loop_plan main_plan)

theorem no_output_before_loop_ends_witness:
  "fst (main [str ''20230615143000_create_orders.ts'', str ''20231301000000_x.ts'']) = Some ValueError
   \<and> stdout (snd (main [str ''20230615143000_create_orders.ts'', str ''20231301000000_x.ts''])) = []"
proof -
  have h: "fst (main [str ''20230615143000_create_orders.ts'', str ''20231301000000_x.ts'']) = Some ValueError"
    by (simp add: run_month_13)
  with no_output_before_loop_ends [of "[]" undefined "[str ''20230615143000_create_orders.ts'', str ''20231301000000_x.ts'']" ValueError]
  show ?thesis by simp
qed

subsection \<open>Character classes\<close>

lemma rng_iff: "rng a b c \<longleftrightarrow> cp a \<le> c \<and> c \<le> cp b"
  by (simp add: rng_def)

lemma lit_iff: "lit a c \<longleftrightarrow> c = cp a"
  by (simp add: lit_def)

subsection \<open>The matcher\<close>

lemma match_atoms_split:
  "match_atoms alt s = Some s' \<Longrightarrow>
     s = take (length alt) s @ s' \<and> length (take (length alt) s) = length alt
     \<and> list_all2 (\<lambda>a c. a c) alt (take (length alt) s)"
proof (induction alt s rule: match_atoms.induct)
  case (1 s)
  then show ?case by simp
next
  case (2 a as)
  then show ?case by simp
next
  case (3 a as c s)
  then show ?case by (simp split: if_splits)
qed

lemma first_some_SomeD: "first_some (map f xs) = Some y \<Longrightarrow> \<exists>x\<in>set xs. f x = Some y"
proof (induction xs)
  case Nil
  then show ?case by simp
next
  case (Cons x xs)
  then show ?case by (cases "f x") auto
qed

lemma match_groups_sound:
  "match_groups gs s = Some (caps, r) \<Longrightarrow>
     s = concat caps @ r \<and>
     list_all2 (\<lambda>g cap. \<exists>alt\<in>set g. length cap = length alt \<and> list_all2 (\<lambda>a c. a c) alt cap) gs caps"
proof (induction gs arbitrary: s caps r)
  case Nil
  then show ?case by simp
next
  case (Cons g gs)
  from Cons.prems obtain alt where alt: "alt \<in> set g"
    and m: "(case match_atoms alt s of None \<Rightarrow> None
             | Some s' \<Rightarrow> (case match_groups gs s' of None \<Rightarrow> None
                 | Some (caps, r) \<Rightarrow> Some (take (length alt) s # caps, r))) = Some (caps, r)"
    using first_some_SomeD [of _ g "(caps, r)"] by (auto simp del: first_some.simps)
  from m obtain s' caps' where s': "match_atoms alt s = Some s'"
    and g: "match_groups gs s' = Some (caps', r)" and caps: "caps = take (length alt) s # caps'"
    by (auto split: option.splits)
  from Cons.IH [OF g] have ih: "s' = concat caps' @ r"
    "list_all2 (\<lambda>g cap. \<exists>alt\<in>set g. length cap = length alt \<and> list_all2 (\<lambda>a c. a c) alt cap) gs caps'"
    by simp_all
  from match_atoms_split [OF s'] have sp: "s = take (length alt) s @ s'"
    "length (take (length alt) s) = length alt" "list_all2 (\<lambda>a c. a c) alt (take (length alt) s)"
    by simp_all
  have "s = concat caps @ r"
    using sp(1) ih(1) caps by simp
  moreover have "list_all2 (\<lambda>g cap. \<exists>alt\<in>set g. length cap = length alt \<and> list_all2 (\<lambda>a c. a c) alt cap) (g # gs) caps"
    using caps ih(2) alt sp(2,3) by auto
  ultimately show ?case by simp
qed

lemma len14:
  assumes "length s = 14"
  obtains c0 c1 c2 c3 c4 c5 c6 c7 c8 c9 c10 c11 c12 c13
  where "s = [c0, c1, c2, c3, c4, c5, c6, c7, c8, c9, c10, c11, c12, c13]"
  using assms by (auto simp: eval_nat_numeral length_Suc_conv)

lemma stage_S:
  assumes "match_groups gs rest = Some (caps, r)" "ascii_digit a" "ascii_digit b"
    "10 * digit_val a + digit_val b \<le> 59"
  shows "match_groups (re_S # gs) (a # b # rest) = Some ([a, b] # caps, r)"
proof -
  note a = ascii_digitD [OF assms(2)] and b = ascii_digitD [OF assms(3)]
  from assms(4) a b have "48 \<le> a" "a \<le> 53"
    by simp_all
  with assms(1) b(1) show ?thesis
    by (simp add: re_S_def lit_iff rng_iff)
qed

lemma stage_M:
  assumes "match_groups gs rest = Some (caps, r)" "ascii_digit a" "ascii_digit b"
    "10 * digit_val a + digit_val b \<le> 59"
  shows "match_groups (re_M # gs) (a # b # rest) = Some ([a, b] # caps, r)"
proof -
  note a = ascii_digitD [OF assms(2)] and b = ascii_digitD [OF assms(3)]
  from assms(4) a b have "48 \<le> a" "a \<le> 53"
    by simp_all
  with assms(1) b(1) show ?thesis
    by (simp add: re_M_def lit_iff rng_iff)
qed

lemma stage_H:
  assumes "match_groups gs rest = Some (caps, r)" "ascii_digit a" "ascii_digit b"
    "10 * digit_val a + digit_val b \<le> 23"
  shows "match_groups (re_H # gs) (a # b # rest) = Some ([a, b] # caps, r)"
proof -
  note a = ascii_digitD [OF assms(2)] and b = ascii_digitD [OF assms(3)]
  from assms(4) a b have "a = 50 \<and> 48 \<le> b \<and> b \<le> 51 \<or> 48 \<le> a \<and> a \<le> 49"
    by auto
  with assms(1) b(1) show ?thesis
    by (auto simp: re_H_def lit_iff rng_iff)
qed

lemma stage_d:
  assumes "match_groups gs rest = Some (caps, r)" "ascii_digit a" "ascii_digit b"
    "1 \<le> 10 * digit_val a + digit_val b" "10 * digit_val a + digit_val b \<le> 31"
  shows "match_groups (re_d # gs) (a # b # rest) = Some ([a, b] # caps, r)"
proof -
  note a = ascii_digitD [OF assms(2)] and b = ascii_digitD [OF assms(3)]
  from assms(4,5) a b have "a = 51 \<and> 48 \<le> b \<and> b \<le> 49
      \<or> 49 \<le> a \<and> a \<le> 50
      \<or> a = 48 \<and> 49 \<le> b \<and> b \<le> 57"
    by auto
  with assms(1) b(1) show ?thesis
    by (auto simp: re_d_def lit_iff rng_iff)
qed

lemma stage_m:
  assumes "match_groups gs rest = Some (caps, r)" "ascii_digit a" "ascii_digit b"
    "1 \<le> 10 * digit_val a + digit_val b" "10 * digit_val a + digit_val b \<le> 12"
  shows "match_groups (re_m # gs) (a # b # rest) = Some ([a, b] # caps, r)"
proof -
  note a = ascii_digitD [OF assms(2)] and b = ascii_digitD [OF assms(3)]
  from assms(4,5) a b have "a = 49 \<and> 48 \<le> b \<and> b \<le> 50
      \<or> a = 48 \<and> 49 \<le> b \<and> b \<le> 57"
    by auto
  with assms(1) show ?thesis
    by (auto simp: re_m_def lit_iff rng_iff)
qed

lemma stage_Y:
  assumes "match_groups gs rest = Some (caps, r)" "is_digit a" "is_digit b" "is_digit c" "is_digit d"
  shows "match_groups (re_Y # gs) (a # b # c # d # rest) = Some ([a, b, c, d] # caps, r)"
  using assms by (simp add: re_Y_def)

lemma match_valid:
  assumes "valid_timestamp s" "list_all ascii_digit s"
  shows "match_groups format_regex s =
    Some ([take 4 s, take 2 (drop 4 s), take 2 (drop 6 s), take 2 (drop 8 s),
           take 2 (drop 10 s), take 2 (drop 12 s)], [])"
proof -
  from assms have "length s = 14" by (simp add: valid_timestamp_def)
  then obtain c0 c1 c2 c3 c4 c5 c6 c7 c8 c9 c10 c11 c12 c13
    where s: "s = [c0, c1, c2, c3, c4, c5, c6, c7, c8, c9, c10, c11, c12, c13]"
    by (rule len14)
  from assms(2) s have dg: "ascii_digit c0" "ascii_digit c1" "ascii_digit c2" "ascii_digit c3"
    "ascii_digit c4" "ascii_digit c5" "ascii_digit c6" "ascii_digit c7" "ascii_digit c8"
    "ascii_digit c9" "ascii_digit c10" "ascii_digit c11" "ascii_digit c12" "ascii_digit c13"
    by simp_all
  from assms s have mo: "1 \<le> 10 * digit_val c4 + digit_val c5" "10 * digit_val c4 + digit_val c5 \<le> 12"
    and hh: "10 * digit_val c8 + digit_val c9 \<le> 23"
    and mi: "10 * digit_val c10 + digit_val c11 \<le> 59"
    and ss: "10 * digit_val c12 + digit_val c13 \<le> 59"
    and d1: "1 \<le> 10 * digit_val c6 + digit_val c7"
    and d2: "10 * digit_val c6 + digit_val c7 \<le> days_in_month (int_of_digits [c0, c1, c2, c3]) (10 * digit_val c4 + digit_val c5)"
    by (simp_all add: valid_timestamp_def fields_def Let_def)
  have "days_in_month (int_of_digits [c0, c1, c2, c3]) (10 * digit_val c4 + digit_val c5) \<le> 31"
    using mo by (auto simp: days_in_month_def DAYS_IN_MONTH_def nth_Cons' nat_eq_iff)
  with d2 have d3: "10 * digit_val c6 + digit_val c7 \<le> 31" by simp
  have "match_groups [] [] = Some ([], [])" by simp
  from stage_S [OF this dg(13,14) ss]
  have "match_groups [re_S] [c12, c13] = Some ([[c12, c13]], [])" .
  from stage_M [OF this dg(11,12) mi]
  have "match_groups [re_M, re_S] [c10, c11, c12, c13] = Some ([[c10, c11], [c12, c13]], [])" .
  from stage_H [OF this dg(9,10) hh]
  have "match_groups [re_H, re_M, re_S] [c8, c9, c10, c11, c12, c13]
        = Some ([[c8, c9], [c10, c11], [c12, c13]], [])" .
  from stage_d [OF this dg(7,8) d1 d3]
  have "match_groups [re_d, re_H, re_M, re_S] [c6, c7, c8, c9, c10, c11, c12, c13]
        = Some ([[c6, c7], [c8, c9], [c10, c11], [c12, c13]], [])" .
  from stage_m [OF this dg(5,6) mo]
  have "match_groups [re_m, re_d, re_H, re_M, re_S] [c4, c5, c6, c7, c8, c9, c10, c11, c12, c13]
        = Some ([[c4, c5], [c6, c7], [c8, c9], [c10, c11], [c12, c13]], [])" .
  from stage_Y [OF this ascii_digitD(1) [OF dg(1)] ascii_digitD(1) [OF dg(2)]
      ascii_digitD(1) [OF dg(3)] ascii_digitD(1) [OF dg(4)]]
  show ?thesis by (simp add: s format_regex_def)
qed

lemma filter_digits: "list_all is_digit s \<Longrightarrow> filter is_digit s = s"
  by (induction s) simp_all

lemma list_all_take_drop: "list_all P s \<Longrightarrow> list_all P (take n (drop k s))"
  by (auto simp: list_all_iff dest: in_set_takeD in_set_dropD)

lemma int_of_digits_bounds: "list_all is_digit s \<Longrightarrow> 0 \<le> int_of_digits s \<and> int_of_digits s < 10 ^ length s"
proof (induction s rule: rev_induct)
  case Nil
  show ?case by (simp add: int_of_digits_def)
next
  case (snoc c s)
  then have "0 \<le> int_of_digits s" "int_of_digits s < 10 ^ length s" "0 \<le> digit_val c" "digit_val c \<le> 9"
    using is_digit_val [of c] by simp_all
  moreover have "int_of_digits (s @ [c]) = 10 * int_of_digits s + digit_val c"
    by (simp add: int_of_digits_def)
  ultimately show ?case by simp
qed

lemma fields_sel:
  "year (fields s) = int_of_digits (take 4 s)"
  "month (fields s) = int_of_digits (take 2 (drop 4 s))"
  "day (fields s) = int_of_digits (take 2 (drop 6 s))"
  "hour (fields s) = int_of_digits (take 2 (drop 8 s))"
  "minute (fields s) = int_of_digits (take 2 (drop 10 s))"
  "second (fields s) = int_of_digits (take 2 (drop 12 s))"
  "microsecond (fields s) = 0"
  by (simp_all add: fields_def)

lemma fields_nonneg:
  assumes "list_all is_digit s"
  shows "0 \<le> year (fields s)" "0 \<le> month (fields s)" "0 \<le> day (fields s)"
    "0 \<le> hour (fields s)" "0 \<le> minute (fields s)" "0 \<le> second (fields s)"
  unfolding fields_sel
  using int_of_digits_bounds [OF list_all_take_drop [OF assms, of 4 0]]
    int_of_digits_bounds [OF list_all_take_drop [OF assms, of 2 4]]
    int_of_digits_bounds [OF list_all_take_drop [OF assms, of 2 6]]
    int_of_digits_bounds [OF list_all_take_drop [OF assms, of 2 8]]
    int_of_digits_bounds [OF list_all_take_drop [OF assms, of 2 10]]
    int_of_digits_bounds [OF list_all_take_drop [OF assms, of 2 12]]
  by simp_all

lemma fields_year_le:
  assumes "list_all is_digit s"
  shows "year (fields s) \<le> 9999"
proof -
  have "int_of_digits (take 4 s) < 10 ^ length (take 4 s)"
    using int_of_digits_bounds [OF list_all_take_drop [OF assms, of 4 0]] by simp
  also have "(10::int) ^ length (take 4 s) \<le> 10 ^ 4"
    by (rule power_increasing) simp_all
  finally show ?thesis by (simp add: fields_sel)
qed

lemma valid_timestampD:
  assumes "valid_timestamp s"
  shows "length s = 14" "list_all is_digit s"
    "1 \<le> year (fields s)" "1 \<le> month (fields s)" "month (fields s) \<le> 12"
    "1 \<le> day (fields s)" "day (fields s) \<le> days_in_month (year (fields s)) (month (fields s))"
    "hour (fields s) \<le> 23" "minute (fields s) \<le> 59" "second (fields s) \<le> 59"
  using assms by (simp_all add: valid_timestamp_def Let_def)

lemma valid_checks:
  assumes "valid_timestamp s"
  shows "check_date_fields (year (fields s)) (month (fields s)) (day (fields s))"
    "check_time_fields (hour (fields s)) (minute (fields s)) (second (fields s)) 0"
  using valid_timestampD [OF assms] fields_nonneg [of s] fields_year_le [of s]
  by (simp_all add: check_date_fields_def check_time_fields_def)

lemma strptime_valid:
  assumes "valid_timestamp s" "list_all ascii_digit s"
  shows "strptime s = Inr (fields s)"
proof -
  from assms(1) have dg: "list_all is_digit s"
    by (rule valid_timestampD)
  have f: "filter is_digit (take 2 (drop 6 s)) = take 2 (drop 6 s)"
    by (rule filter_digits [OF list_all_take_drop [OF dg]])
  have "strptime s =
    (if \<not> check_date_fields (year (fields s)) (month (fields s)) (day (fields s)) then Inl ValueError
     else if \<not> check_time_fields (hour (fields s)) (minute (fields s)) (second (fields s)) 0
     then Inl ValueError else Inr (fields s))"
    unfolding strptime_def match_valid [OF assms] by (simp add: f Let_def fields_def)
  with valid_checks [OF assms(1)] show ?thesis by simp
qed

lemma match_groups_lengths:
  assumes "match_groups gs s = Some (caps, r)"
  shows "list_all2 (\<lambda>g cap. length cap \<in> length ` set g) gs caps"
proof -
  have "list_all2 (\<lambda>g cap. \<exists>alt\<in>set g. length cap = length alt \<and> list_all2 (\<lambda>a c. a c) alt cap) gs caps"
    using match_groups_sound [OF assms] by simp
  then show ?thesis
    by (rule list_all2_mono) auto
qed

lemma format_regex_caps:
  assumes "match_groups format_regex s = Some (caps, r)"
  obtains Y m d H M S where "caps = [Y, m, d, H, M, S]" "s = Y @ m @ d @ H @ M @ S @ r"
    "length Y = 4" "length m \<le> 2" "length d \<le> 2" "length H \<le> 2" "length M \<le> 2"
    "length S \<le> 2"
proof -
  from match_groups_lengths [OF assms]
  have l: "list_all2 (\<lambda>g cap. length cap \<in> length ` set g) [re_Y, re_m, re_d, re_H, re_M, re_S] caps"
    by (simp add: format_regex_def)
  then obtain Y m d H M S where caps: "caps = [Y, m, d, H, M, S]"
    by (auto simp: list_all2_Cons1)
  from l have "length Y \<in> length ` set re_Y" "length m \<in> length ` set re_m"
      "length d \<in> length ` set re_d" "length H \<in> length ` set re_H"
      "length M \<in> length ` set re_M" "length S \<in> length ` set re_S"
    unfolding caps by simp_all
  then have "length Y = 4" "length m \<le> 2" "length d \<le> 2" "length H \<le> 2" "length M \<le> 2"
    "length S \<le> 2"
    unfolding re_Y_def re_m_def re_d_def re_H_def re_M_def re_S_def by auto
  moreover have "s = Y @ m @ d @ H @ M @ S @ r"
    using match_groups_sound [OF assms] caps by simp
  ultimately show thesis using caps that by blast
qed

lemma strptime_InrD:
  assumes "length s = 14" "list_all is_digit s" "strptime s = Inr dt"
  shows "valid_timestamp s \<and> dt = fields s"
proof -
  from assms(3) obtain caps where mg0: "match_groups format_regex s = Some (caps, [])"
    by (auto simp: strptime_def split: option.splits if_splits)
  from format_regex_caps [OF mg0] obtain Y m d H M S where caps: "caps = [Y, m, d, H, M, S]"
    and cat: "s = Y @ m @ d @ H @ M @ S @ []"
    and l: "length Y = 4" "length m \<le> 2" "length d \<le> 2" "length H \<le> 2" "length M \<le> 2"
      "length S \<le> 2"
    by blast
  from mg0 caps have mg: "match_groups format_regex s = Some ([Y, m, d, H, M, S], [])"
    by simp
  from assms(3) have chk: "check_date_fields (int_of_digits Y) (int_of_digits m) (int_of_digits (filter is_digit d))"
      "check_time_fields (int_of_digits H) (int_of_digits M) (int_of_digits S) 0"
    and dt: "dt = \<lparr>year = int_of_digits Y, month = int_of_digits m,
                  day = int_of_digits (filter is_digit d), hour = int_of_digits H,
                  minute = int_of_digits M, second = int_of_digits S, microsecond = 0\<rparr>"
    unfolding strptime_def mg by (simp_all add: Let_def split: if_splits)
  from assms(1) have "length (Y @ m @ d @ H @ M @ S @ []) = 14"
    using cat by simp
  then have "length Y + length m + length d + length H + length M + length S = 14"
    by simp
  with l have l2: "length m = 2" "length d = 2" "length H = 2" "length M = 2" "length S = 2"
    by linarith+
  have sl: "take 4 s = Y" "take 2 (drop 4 s) = m" "take 2 (drop 6 s) = d" "take 2 (drop 8 s) = H"
    "take 2 (drop 10 s) = M" "take 2 (drop 12 s) = S"
    using l(1) l2 cat by simp_all
  have f: "filter is_digit d = d"
    using filter_digits [OF list_all_take_drop [OF assms(2), of 2 6]] sl by simp
  have eq: "dt = fields s"
    unfolding dt f fields_def sl by simp
  have "valid_timestamp s"
    unfolding valid_timestamp_def Let_def fields_sel sl
    using chk assms(1,2) by (simp add: f check_date_fields_def check_time_fields_def)
  with eq show ?thesis by simp
qed

lemma strptime_invalid:
  assumes "length s = 14" "list_all is_digit s" "\<not> valid_timestamp s"
  shows "strptime s = Inl ValueError"
proof (cases "strptime s")
  case (Inl e)
  then show ?thesis by (cases e) simp
next
  case (Inr dt)
  with strptime_InrD [OF assms(1,2)] assms(3) show ?thesis by simp
qed

subsection \<open>Errors and entries of the loop\<close>

lemma first_error_Some: "p \<in> set ps \<Longrightarrow> plan p = Inl e \<Longrightarrow> first_error ps = Some ValueError"
proof (induction ps)
  case Nil
  then show ?case by simp
next
  case (Cons q qs)
  show ?case
  proof (cases "plan q")
    case (Inl e')
    then show ?thesis by (cases e') simp
  next
    case (Inr x)
    with Cons show ?thesis by auto
  qed
qed

lemma entries_member:
  "p \<in> set ps \<Longrightarrow> first_error ps = None \<Longrightarrow> plan p = Inr (Some e) \<Longrightarrow> e \<in> set (entries ps)"
  by (induction ps) (auto split: sum.splits option.splits)

lemma entries_origin: "e \<in> set (entries ps) \<Longrightarrow> fst (fst e) \<in> set ps \<and> plan (fst (fst e)) = Inr (Some e)"
proof -
  assume "e \<in> set (entries ps)"
  then obtain p where p: "p \<in> set ps" "plan p = Inr (Some e)"
    using entries_set by blast
  from p(2) have "fst (fst e) = p"
    by (rule plan_SomeD) simp
  with p show ?thesis by simp
qed

lemma entries_sorted_wrt:
  "sorted_wrt R ps \<Longrightarrow> sorted_wrt R (map (\<lambda>e. fst (fst e)) (entries ps))"
proof (induction ps)
  case Nil
  show ?case by simp
next
  case (Cons p ps)
  then have ih: "sorted_wrt R (map (\<lambda>e. fst (fst e)) (entries ps))" and r: "\<forall>x\<in>set ps. R p x"
    by simp_all
  show ?case
  proof (cases "plan p")
    case (Inl e)
    then show ?thesis by simp
  next
    case (Inr x)
    show ?thesis
    proof (cases x)
      case None
      with Inr ih show ?thesis by simp
    next
      case (Some e)
      with Inr have pe: "plan p = Inr (Some e)" by simp
      then have "fst (fst e) = p"
        by (rule plan_SomeD) simp
      moreover have "\<forall>x\<in>set (map (\<lambda>e. fst (fst e)) (entries ps)). R p x"
        using r entries_origin [of _ ps] by auto
      ultimately show ?thesis using pe ih by simp
    qed
  qed
qed

lemma entries_filter:
  assumes "\<And>p. \<not> P p \<Longrightarrow> plan p = Inr None"
  shows "entries (filter P ps) = entries ps \<and> first_error (filter P ps) = first_error ps"
  using assms by (induction ps) (auto split: sum.splits option.splits)

subsection \<open>The sorted files\<close>

lemma files_sorted: "sorted (files listing)"
  by (simp add: files_def)

lemma files_names_sorted: "sorted (map path_name (files listing))"
proof -
  have "sorted_wrt (\<lambda>p q. path_name p \<le> path_name q) (files listing)"
  proof (rule sorted_wrt_mono_rel [OF _ files_sorted])
    fix p q
    assume "p \<in> set (files listing)" "q \<in> set (files listing)" "p \<le> q"
    then obtain a b where "p = joinpath MIG_DIR a" "q = joinpath MIG_DIR b" "joinpath MIG_DIR a \<le> joinpath MIG_DIR b"
      by (auto simp: files_set)
    then show "path_name p \<le> path_name q"
      by (simp add: joinpath_le)
  qed
  then show ?thesis by (simp add: sorted_map)
qed

lemma files_filter:
  "files (filter (\<lambda>n. P n) listing) = filter (\<lambda>p. P (path_name p)) (files listing)"
proof -
  have "filter (\<lambda>p. P (path_name p)) (filter (\<lambda>p. path_suffix p = str ''.ts'') (iterdir MIG_DIR listing))
        = filter (\<lambda>p. path_suffix p = str ''.ts'') (iterdir MIG_DIR (filter P listing))"
    by (induction listing) (simp_all add: iterdir_def)
  then show ?thesis
    by (simp add: files_def filter_sort)
qed

lemma plan_invalid:
  assumes "pat_match (path_name p) = Some (ymdhms, rest)" "\<not> valid_timestamp ymdhms"
  shows "plan p = Inl ValueError"
proof -
  from pat_matchD(1,2) [OF assms(1)] assms(2) have "strptime ymdhms = Inl ValueError"
    by (rule strptime_invalid)
  with assms(1) show ?thesis by (simp add: plan_def)
qed

lemma plan_Some_facts:
  assumes "plan p = Inr (Some e)"
  shows "fst (fst e) = p" "fst (snd e) = path_stem p"
    "snd (fst e) = joinpath MIG_DIR (snd (snd e) @ str ''.ts'')"
    "snd (snd e) @ str ''.ts'' \<noteq> path_name p"
    "\<exists>ymdhms rest dt. pat_match (path_name p) = Some (ymdhms, rest) \<and> strptime ymdhms = Inr dt
       \<and> snd (snd e) = str_int (unix_ms dt) @ str ''_'' @ rest"
  using assms by (rule plan_SomeD, simp)+

lemma plan_unmatched: "pat_match (path_name p) = None \<Longrightarrow> plan p = Inr None"
  by (simp add: plan_def)

subsection \<open>A date that does not exist stops the run\<close>

text \<open>
  Claim C4.  If one of the files that the run scans (an entry of the directory with the
  suffix \<^verbatim>\<open>.ts\<close>) has a name that matches the pattern while its 14 digits are not
  a date and time of the calendar, for instance with month 13, the run ends with the
  \<^verbatim>\<open>ValueError\<close> of \<^verbatim>\<open>strptime\<close>, uncaught, and has printed no report.  (A name that
  the pattern accepts with a line break after \<^verbatim>\<open>.ts\<close> has another suffix and is never
  scanned.)
\<close>

theorem invalid_date_raises:
  assumes "p \<in> set (files listing)"
    and "pat_match (path_name p) = Some (ymdhms, rest)"
    and "\<not> valid_timestamp ymdhms"
  shows "fst (main listing) = Some ValueError \<and> stdout (snd (main listing)) = []"
proof -
  have "plan p = Inl ValueError"
    using assms(2,3) by (rule plan_invalid)
  with assms(1) have "first_error (files listing) = Some ValueError"
    by (rule first_error_Some)
  then show ?thesis by (simp add: main_plan)
qed

lemma files_month_13:
  "files [str ''20230615143000_create_orders.ts'', str ''20231301000000_x.ts''] =
     [joinpath MIG_DIR (str ''20230615143000_create_orders.ts''), joinpath MIG_DIR (str ''20231301000000_x.ts'')]"
  by code_simp

lemma pat_match_month_13: "pat_match (str ''20231301000000_x.ts'') = Some (str ''20231301000000'', str ''x'')"
  by code_simp

lemma invalid_month_13: "\<not> valid_timestamp (str ''20231301000000'')"
  by code_simp

theorem invalid_date_raises_witness:
  "fst (main [str ''20230615143000_create_orders.ts'', str ''20231301000000_x.ts'']) = Some ValueError
   \<and> stdout (snd (main [str ''20230615143000_create_orders.ts'', str ''20231301000000_x.ts''])) = []"
proof -
  have 1: "joinpath MIG_DIR (str ''20231301000000_x.ts'')
           \<in> set (files [str ''20230615143000_create_orders.ts'', str ''20231301000000_x.ts''])"
    by (simp add: files_month_13)
  have 2: "pat_match (path_name (joinpath MIG_DIR (str ''20231301000000_x.ts''))) = Some (str ''20231301000000'', str ''x'')"
    by (simp add: pat_match_month_13)
  from invalid_date_raises [OF 1 2 invalid_month_13] show ?thesis .
qed

subsection \<open>Files that do not match are skipped\<close>

text \<open>
  Claim C5.  A run on a directory is the run on the same directory without the names
  that the pattern rejects: same end, same lists, same output, so these files neither
  fail the run nor add to it.  And for every scanned file (suffix \<^verbatim>\<open>.ts\<close>) whose
  name does not match, no rename entry has it as original path and no SQL entry has its
  base name as old name.
\<close>

theorem unmatched_files_skipped:
  "main listing = main (filter (\<lambda>n. pat_match n \<noteq> None) listing) \<and>
   (\<forall>p\<in>set (files listing). pat_match (path_name p) = None \<longrightarrow>
      (\<forall>r\<in>set (renames (snd (main listing))). fst r \<noteq> p) \<and>
      (\<forall>u\<in>set (sql_updates (snd (main listing))). fst u \<noteq> path_stem p))"
proof -
  let ?P = "\<lambda>p. pat_match (path_name p) \<noteq> None"
  have f: "files (filter (\<lambda>n. pat_match n \<noteq> None) listing) = filter ?P (files listing)"
    by (rule files_filter)
  have "plan p = Inr None" if "\<not> ?P p" for p
  proof (cases "pat_match (path_name p)")
    case None
    then show ?thesis by (rule plan_unmatched)
  next
    case (Some a)
    with that show ?thesis by simp
  qed
  then have e: "entries (filter ?P (files listing)) = entries (files listing)
      \<and> first_error (filter ?P (files listing)) = first_error (files listing)"
    by (rule entries_filter)
  have 1: "main listing = main (filter (\<lambda>n. pat_match n \<noteq> None) listing)"
    unfolding main_plan f conjunct1 [OF e] conjunct2 [OF e] by (rule refl)
  have 2: "(\<forall>r\<in>set (renames (snd (main listing))). fst r \<noteq> p) \<and>
      (\<forall>u\<in>set (sql_updates (snd (main listing))). fst u \<noteq> path_stem p)"
    if p: "p \<in> set (files listing)" and un: "pat_match (path_name p) = None" for p
  proof -
    have "fst (fst e) \<noteq> p \<and> fst (snd e) \<noteq> path_stem p" if e: "e \<in> set (entries (files listing))" for e
    proof -
      from entries_origin [OF e] have q: "fst (fst e) \<in> set (files listing)"
        and pl: "plan (fst (fst e)) = Inr (Some e)" by simp_all
      from plan_Some_facts(2,5) [OF pl]
      obtain y r where m: "pat_match (path_name (fst (fst e))) = Some (y, r)"
        and s: "fst (snd e) = path_stem (fst (fst e))"
        by blast
      from m un have ne: "path_name (fst (fst e)) \<noteq> path_name p" by auto
      from p q have "path_name p = path_stem p @ str ''.ts''"
        "path_name (fst (fst e)) = path_stem (fst (fst e)) @ str ''.ts''"
        by (simp_all add: files_set path_suffix_ts_name)
      with ne s show ?thesis by auto
    qed
    then show ?thesis by (auto simp: main_plan)
  qed
  from 1 2 show ?thesis by blast
qed

lemma run_notes:
  "main [str ''notes.ts'', str ''20230615143000_create_orders.ts''] = main [str ''20230615143000_create_orders.ts'']"
  by code_simp

lemma files_notes:
  "files [str ''notes.ts'', str ''20230615143000_create_orders.ts''] =
     [joinpath MIG_DIR (str ''20230615143000_create_orders.ts''), joinpath MIG_DIR (str ''notes.ts'')]"
  by code_simp

lemma pat_match_notes: "pat_match (str ''notes.ts'') = None"
  by code_simp

theorem unmatched_files_skipped_witness:
  "joinpath MIG_DIR (str ''notes.ts'') \<in> set (files [str ''notes.ts'', str ''20230615143000_create_orders.ts''])
   \<and> pat_match (path_name (joinpath MIG_DIR (str ''notes.ts''))) = None
   \<and> (joinpath MIG_DIR (str ''20230615143000_create_orders.ts''),
        joinpath MIG_DIR (str ''1686839400000_create_orders.ts''))
       \<in> set (renames (snd (main [str ''notes.ts'', str ''20230615143000_create_orders.ts''])))
   \<and> joinpath MIG_DIR (str ''20230615143000_create_orders.ts'') \<noteq> joinpath MIG_DIR (str ''notes.ts'')
   \<and> (str ''20230615143000_create_orders'', str ''1686839400000_create_orders'')
       \<in> set (sql_updates (snd (main [str ''notes.ts'', str ''20230615143000_create_orders.ts''])))
   \<and> (str ''20230615143000_create_orders'') \<noteq> path_stem (joinpath MIG_DIR (str ''notes.ts''))
   \<and> main [str ''notes.ts'', str ''20230615143000_create_orders.ts'']
       = main (filter (\<lambda>n. pat_match n \<noteq> None) [str ''notes.ts'', str ''20230615143000_create_orders.ts''])"
proof -
  have 1: "joinpath MIG_DIR (str ''notes.ts'') \<in> set (files [str ''notes.ts'', str ''20230615143000_create_orders.ts''])"
    by (simp add: files_notes)
  have 2: "pat_match (path_name (joinpath MIG_DIR (str ''notes.ts''))) = None"
    by (simp add: pat_match_notes)
  have 3: "(joinpath MIG_DIR (str ''20230615143000_create_orders.ts''),
        joinpath MIG_DIR (str ''1686839400000_create_orders.ts''))
       \<in> set (renames (snd (main [str ''notes.ts'', str ''20230615143000_create_orders.ts''])))"
    and 4: "(str ''20230615143000_create_orders'', str ''1686839400000_create_orders'')
       \<in> set (sql_updates (snd (main [str ''notes.ts'', str ''20230615143000_create_orders.ts''])))"
    by (simp_all add: run_notes run_create_orders)
  from unmatched_files_skipped [of "[str ''notes.ts'', str ''20230615143000_create_orders.ts'']"] 1 2 3 4
  show ?thesis by fastforce
qed

subsection \<open>The guard on equal names\<close>

text \<open>
  Claim C6.  In the state a run ends in, every rename entry has a new path that differs
  from its original path, and every SQL entry a new base name that differs from the old
  one.  The guard of the loop body does it: for a file whose name matches and whose
  timestamp parses, the body leaves the state as it is when the new file name equals
  the name of the file, so neither list gets an entry, and otherwise appends one entry
  to each list.
\<close>

theorem new_path_differs:
  "(\<forall>r\<in>set (renames (snd (main listing))). fst r \<noteq> snd r) \<and>
   (\<forall>u\<in>set (sql_updates (snd (main listing))). fst u \<noteq> snd u) \<and>
   (pat_match (path_name p) = Some (ymdhms, rest) \<longrightarrow> strptime ymdhms = Inr dt \<longrightarrow>
      loop_body p st =
        (None,
         if str_int (unix_ms dt) @ str ''_'' @ rest @ str ''.ts'' = path_name p then st
         else st\<lparr>renames := renames st
                     @ [(p, joinpath MIG_DIR (str_int (unix_ms dt) @ str ''_'' @ rest @ str ''.ts''))],
                 sql_updates := sql_updates st
                     @ [(path_stem p, str_int (unix_ms dt) @ str ''_'' @ rest)]\<rparr>))"
proof -
  have e: "fst (fst e) \<noteq> snd (fst e) \<and> fst (snd e) \<noteq> snd (snd e)"
    if "e \<in> set (entries (files listing))" for e
  proof -
    from entries_origin [OF that] have q: "fst (fst e) \<in> set (files listing)"
      and pl: "plan (fst (fst e)) = Inr (Some e)" by simp_all
    note f = plan_Some_facts [OF pl]
    from q have n: "path_name (fst (fst e)) = path_stem (fst (fst e)) @ str ''.ts''"
      by (simp add: files_set path_suffix_ts_name)
    have "path_name (snd (fst e)) \<noteq> path_name (fst (fst e))"
      using f(3,4) by simp
    then have "fst (fst e) \<noteq> snd (fst e)" by auto
    moreover have "fst (snd e) \<noteq> snd (snd e)"
      using f(2,4) n by auto
    ultimately show ?thesis by simp
  qed
  have 1: "\<forall>r\<in>set (renames (snd (main listing))). fst r \<noteq> snd r"
    using e by (auto simp: main_plan)
  have 2: "\<forall>u\<in>set (sql_updates (snd (main listing))). fst u \<noteq> snd u"
    using e by (auto simp: main_plan)
  have 3: "pat_match (path_name p) = Some (ymdhms, rest) \<longrightarrow> strptime ymdhms = Inr dt \<longrightarrow>
      loop_body p st =
        (None,
         if str_int (unix_ms dt) @ str ''_'' @ rest @ str ''.ts'' = path_name p then st
         else st\<lparr>renames := renames st
                     @ [(p, joinpath MIG_DIR (str_int (unix_ms dt) @ str ''_'' @ rest @ str ''.ts''))],
                 sql_updates := sql_updates st
                     @ [(path_stem p, str_int (unix_ms dt) @ str ''_'' @ rest)]\<rparr>)"
    by (simp add: loop_body_def Let_def)
  from 1 2 3 show ?thesis by blast
qed

lemma strptime_create_orders:
  "strptime (str ''20230615143000'') =
     Inr \<lparr>year = 2023, month = 6, day = 15, hour = 14, minute = 30, second = 0, microsecond = 0\<rparr>"
  by code_simp

lemma pat_match_create_orders:
  "pat_match (str ''20230615143000_create_orders.ts'') = Some (str ''20230615143000'', str ''create_orders'')"
  by code_simp

theorem new_path_differs_witness:
  "(joinpath MIG_DIR (str ''20230615143000_create_orders.ts''), joinpath MIG_DIR (str ''1686839400000_create_orders.ts''))
     \<in> set (renames (snd (main [str ''20230615143000_create_orders.ts''])))
   \<and> joinpath MIG_DIR (str ''20230615143000_create_orders.ts'') \<noteq> joinpath MIG_DIR (str ''1686839400000_create_orders.ts'')
   \<and> (str ''20230615143000_create_orders'', str ''1686839400000_create_orders'')
     \<in> set (sql_updates (snd (main [str ''20230615143000_create_orders.ts''])))
   \<and> (str ''20230615143000_create_orders'') \<noteq> (str ''1686839400000_create_orders'')
   \<and> pat_match (path_name (joinpath MIG_DIR (str ''20230615143000_create_orders.ts'')))
       = Some (str ''20230615143000'', str ''create_orders'')
   \<and> strptime (str ''20230615143000'')
       = Inr \<lparr>year = 2023, month = 6, day = 15, hour = 14, minute = 30, second = 0, microsecond = 0\<rparr>
   \<and> fst (loop_body (joinpath MIG_DIR (str ''20230615143000_create_orders.ts''))
             \<lparr>renames = [], sql_updates = [], stdout = []\<rparr>) = None"
proof -
  have 1: "(joinpath MIG_DIR (str ''20230615143000_create_orders.ts''), joinpath MIG_DIR (str ''1686839400000_create_orders.ts''))
     \<in> set (renames (snd (main [str ''20230615143000_create_orders.ts''])))"
    and 2: "(str ''20230615143000_create_orders'', str ''1686839400000_create_orders'')
     \<in> set (sql_updates (snd (main [str ''20230615143000_create_orders.ts''])))"
    by (simp_all add: run_create_orders)
  have 3: "pat_match (path_name (joinpath MIG_DIR (str ''20230615143000_create_orders.ts'')))
       = Some (str ''20230615143000'', str ''create_orders'')"
    by (simp add: pat_match_create_orders)
  from new_path_differs [of "[str ''20230615143000_create_orders.ts'']"
      "joinpath MIG_DIR (str ''20230615143000_create_orders.ts'')" "str ''20230615143000''" "str ''create_orders''"
      "\<lparr>year = 2023, month = 6, day = 15, hour = 14, minute = 30, second = 0, microsecond = 0\<rparr>"
      "\<lparr>renames = [], sql_updates = [], stdout = []\<rparr>"]
    1 2 3 strptime_create_orders
  show ?thesis by fastforce
qed

subsection \<open>Order\<close>

text \<open>
  Claim C8.  The files are processed in ascending lexicographic order of their names.
  The original file names of the rename entries, in the order of the list, are in
  ascending lexicographic order, and so are the original file names of the SQL entries
  (the old base name with \<^verbatim>\<open>.ts\<close>); a run that ends normally prints the header, the
  \<^verbatim>\<open>mv\<close> lines in the order of the rename entries, the second header, and the SQL
  lines in the order of the SQL entries.
\<close>

theorem emitted_in_name_order:
  "sorted (map path_name (files listing)) \<and>
   sorted (map (\<lambda>r. path_name (fst r)) (renames (snd (main listing)))) \<and>
   sorted (map (\<lambda>u. fst u @ str ''.ts'') (sql_updates (snd (main listing)))) \<and>
   (fst (main listing) = None \<longrightarrow>
      stdout (snd (main listing)) =
        mv_header # map mv_line (renames (snd (main listing)))
        @ sql_header # map sql_line (sql_updates (snd (main listing))))"
proof -
  have 1: "sorted (map path_name (files listing))"
    by (rule files_names_sorted)
  then have "sorted_wrt (\<lambda>p q. path_name p \<le> path_name q) (files listing)"
    by (simp add: sorted_map)
  then have "sorted_wrt (\<lambda>p q. path_name p \<le> path_name q)
               (map (\<lambda>e. fst (fst e)) (entries (files listing)))"
    by (rule entries_sorted_wrt)
  then have s: "sorted (map (\<lambda>e. path_name (fst (fst e))) (entries (files listing)))"
    by (simp add: sorted_map sorted_wrt_map)
  have n: "fst (snd e) @ str ''.ts'' = path_name (fst (fst e))"
    if "e \<in> set (entries (files listing))" for e
  proof -
    from entries_origin [OF that] have q: "fst (fst e) \<in> set (files listing)"
      and pl: "plan (fst (fst e)) = Inr (Some e)" by simp_all
    from q have "path_name (fst (fst e)) = path_stem (fst (fst e)) @ str ''.ts''"
      by (simp add: files_set path_suffix_ts_name)
    with plan_Some_facts(2) [OF pl] show ?thesis by simp
  qed
  then have "map (\<lambda>e. fst (snd e) @ str ''.ts'') (entries (files listing))
             = map (\<lambda>e. path_name (fst (fst e))) (entries (files listing))"
    by (simp cong: map_cong)
  then have s': "sorted (map (\<lambda>e. fst (snd e) @ str ''.ts'') (entries (files listing)))"
    using s by (rule ssubst)
  have 2: "sorted (map (\<lambda>r. path_name (fst r)) (renames (snd (main listing))))"
    using s by (simp add: main_plan comp_def)
  have 3: "sorted (map (\<lambda>u. fst u @ str ''.ts'') (sql_updates (snd (main listing))))"
    using s' by (simp add: main_plan comp_def)
  have 4: "fst (main listing) = None \<longrightarrow>
      stdout (snd (main listing)) =
        mv_header # map mv_line (renames (snd (main listing)))
        @ sql_header # map sql_line (sql_updates (snd (main listing)))"
    by (simp add: main_plan report_def)
  from 1 2 3 4 show ?thesis by blast
qed

lemma run_two_files:
  "main [str ''20230615143000_create_orders.ts'', str ''20220101000000_init.ts''] =
     (None,
      \<lparr>renames = [(joinpath MIG_DIR (str ''20220101000000_init.ts''), joinpath MIG_DIR (str ''1640995200000_init.ts'')),
                  (joinpath MIG_DIR (str ''20230615143000_create_orders.ts''),
                   joinpath MIG_DIR (str ''1686839400000_create_orders.ts''))],
       sql_updates = [(str ''20220101000000_init'', str ''1640995200000_init''),
                      (str ''20230615143000_create_orders'', str ''1686839400000_create_orders'')],
       stdout = [mv_header,
                 str ''mv src/migrations/20220101000000_init.ts src/migrations/1640995200000_init.ts'',
                 str ''mv src/migrations/20230615143000_create_orders.ts src/migrations/1686839400000_create_orders.ts'',
                 sql_header,
                 sql_line (str ''20220101000000_init'', str ''1640995200000_init''),
                 sql_line (str ''20230615143000_create_orders'', str ''1686839400000_create_orders'')]\<rparr>)"
  by code_simp

theorem emitted_in_name_order_witness:
  "fst (main [str ''20230615143000_create_orders.ts'', str ''20220101000000_init.ts'']) = None
   \<and> stdout (snd (main [str ''20230615143000_create_orders.ts'', str ''20220101000000_init.ts''])) =
       mv_header
       # map mv_line (renames (snd (main [str ''20230615143000_create_orders.ts'', str ''20220101000000_init.ts''])))
       @ sql_header
       # map sql_line (sql_updates (snd (main [str ''20230615143000_create_orders.ts'', str ''20220101000000_init.ts''])))
   \<and> sorted [str ''20220101000000_init.ts'', str ''20230615143000_create_orders.ts'']"
proof -
  have h: "fst (main [str ''20230615143000_create_orders.ts'', str ''20220101000000_init.ts'']) = None"
    by (simp add: run_two_files)
  have r: "map (\<lambda>r. path_name (fst r))
             (renames (snd (main [str ''20230615143000_create_orders.ts'', str ''20220101000000_init.ts''])))
           = [str ''20220101000000_init.ts'', str ''20230615143000_create_orders.ts'']"
    by (simp add: run_two_files)
  from emitted_in_name_order [of "[str ''20230615143000_create_orders.ts'', str ''20220101000000_init.ts'']"] h
  show ?thesis unfolding r by blast
qed

subsection \<open>Whole seconds\<close>

lemma toordinal_EPOCH: "toordinal EPOCH = 719163"
  by (simp add: toordinal_def EPOCH_def ymd2ord_def days_before_year_def days_before_month_def
      DAYS_BEFORE_MONTH_def)

lemma py_int_of_int [simp]: "py_int (of_int k) = k"
  by (simp add: py_int_def)

lemma timestamp_whole: "microsecond dt = 0 \<Longrightarrow> timestamp dt = of_int (epoch_seconds dt)"
  by (simp add: timestamp_def total_seconds_def datetime_sub_def epoch_seconds_def EPOCH_def)

lemma unix_ms_whole: "microsecond dt = 0 \<Longrightarrow> unix_ms dt = epoch_seconds dt * 1000"
proof -
  assume "microsecond dt = 0"
  then have "timestamp dt * 1000 = of_int (epoch_seconds dt * 1000)"
    by (simp add: timestamp_whole)
  then show ?thesis
    unfolding unix_ms_def by (simp only: py_int_of_int)
qed

lemma days_before_year_bounds:
  assumes "1 \<le> y" "y \<le> 9999"
  shows "0 \<le> days_before_year y" "days_before_year y \<le> 3651793"
proof -
  have a: "(y - 1) div 100 \<le> (y - 1) div 4"
    using assms by (intro zdiv_mono2) simp_all
  have b: "0 \<le> (y - 1) div 400" "0 \<le> (y - 1) div 100"
    using assms by simp_all
  have c: "(y - 1) div 4 \<le> 2499" "(y - 1) div 400 \<le> 24"
    using assms by simp_all
  show "0 \<le> days_before_year y" "days_before_year y \<le> 3651793"
    using a b c assms by (simp_all add: days_before_year_def Let_def)
qed

lemma days_before_month_bounds: "1 \<le> m \<Longrightarrow> m \<le> 12 \<Longrightarrow> 0 \<le> days_before_month y m \<and> days_before_month y m \<le> 335"
proof -
  assume "1 \<le> m" "m \<le> 12"
  then have "m = 1 \<or> m = 2 \<or> m = 3 \<or> m = 4 \<or> m = 5 \<or> m = 6 \<or> m = 7 \<or> m = 8 \<or> m = 9
      \<or> m = 10 \<or> m = 11 \<or> m = 12" by arith
  then show ?thesis
    by (auto simp: days_before_month_def DAYS_BEFORE_MONTH_def)
qed

lemma days_in_month_le: "1 \<le> m \<Longrightarrow> m \<le> 12 \<Longrightarrow> 28 \<le> days_in_month y m \<and> days_in_month y m \<le> 31"
proof -
  assume "1 \<le> m" "m \<le> 12"
  then have "m = 1 \<or> m = 2 \<or> m = 3 \<or> m = 4 \<or> m = 5 \<or> m = 6 \<or> m = 7 \<or> m = 8 \<or> m = 9
      \<or> m = 10 \<or> m = 11 \<or> m = 12" by arith
  then show ?thesis
    by (auto simp: days_in_month_def DAYS_IN_MONTH_def)
qed

lemma epoch_seconds_bounds:
  assumes "check_date_fields (year dt) (month dt) (day dt)"
    "check_time_fields (hour dt) (minute dt) (second dt) 0"
  shows "- 62135596800 \<le> epoch_seconds dt" "epoch_seconds dt < 254000000000"
proof -
  from assms(1) have y: "1 \<le> year dt" "year dt \<le> 9999" and m: "1 \<le> month dt" "month dt \<le> 12"
    and d: "1 \<le> day dt" "day dt \<le> days_in_month (year dt) (month dt)"
    by (simp_all add: check_date_fields_def)
  from assms(2) have t: "0 \<le> hour dt" "hour dt \<le> 23" "0 \<le> minute dt" "minute dt \<le> 59"
    "0 \<le> second dt" "second dt \<le> 59"
    by (simp_all add: check_time_fields_def)
  note yb = days_before_year_bounds [OF y] and bm = days_before_month_bounds [OF m, of "year dt"]
    and dm = days_in_month_le [OF m, of "year dt"]
  have o: "1 \<le> toordinal dt" "toordinal dt \<le> 3652159"
    using yb bm dm d by (simp_all add: toordinal_def ymd2ord_def)
  show "- 62135596800 \<le> epoch_seconds dt" "epoch_seconds dt < 254000000000"
    using o t by (simp_all add: epoch_seconds_def toordinal_EPOCH)
qed

text \<open>
  Claim C9.  For a file whose name matches the pattern, whenever \<^verbatim>\<open>strptime\<close> returns
  a datetime for its 14 digits (they are then a date and time of the calendar), the
  number of milliseconds computed from it is the truncated number of seconds since the
  epoch times 1000, hence a multiple of 1000.  The product \<^verbatim>\<open>dt.timestamp() * 1000\<close> is
  this very integer, below \<open>2 ^ 53\<close> in size, so the floating-point numbers of the
  script hold the exact values that the model computes with.  And \<^verbatim>\<open>strptime\<close> does
  return a datetime for every 14 digits \<^verbatim>\<open>0\<close> to \<^verbatim>\<open>9\<close> that are a date and time of
  the calendar.
\<close>

theorem unix_ms_multiple_of_1000:
  assumes "pat_match name = Some (ymdhms, rest)"
  shows "(strptime ymdhms = Inr dt \<longrightarrow>
            valid_timestamp ymdhms \<and> unix_ms dt = py_int (timestamp dt) * 1000
            \<and> unix_ms dt mod 1000 = 0
            \<and> timestamp dt * 1000 = of_int (unix_ms dt) \<and> \<bar>unix_ms dt\<bar> < 2 ^ 53)
         \<and> (valid_timestamp ymdhms \<longrightarrow> list_all ascii_digit ymdhms \<longrightarrow>
              strptime ymdhms = Inr (fields ymdhms))"
proof (intro conjI impI)
  assume p: "strptime ymdhms = Inr dt"
  note pm = pat_matchD [OF assms]
  from strptime_InrD [OF pm(1,2) p] have v: "valid_timestamp ymdhms" and dt: "dt = fields ymdhms"
    by simp_all
  have us: "microsecond dt = 0"
    by (simp add: dt fields_sel)
  note ts = timestamp_whole [OF us] and ms = unix_ms_whole [OF us]
  have b: "- 62135596800 \<le> epoch_seconds dt" "epoch_seconds dt < 254000000000"
    unfolding dt by (rule epoch_seconds_bounds [OF valid_checks [OF v]])+
  show "valid_timestamp ymdhms" by (rule v)
  show "unix_ms dt = py_int (timestamp dt) * 1000"
    unfolding ts ms by (simp only: py_int_of_int)
  show "unix_ms dt mod 1000 = 0"
    unfolding ms by simp
  show "timestamp dt * 1000 = of_int (unix_ms dt)"
    unfolding ts ms by simp
  show "\<bar>unix_ms dt\<bar> < 2 ^ 53"
    unfolding ms using b by simp
next
  assume "valid_timestamp ymdhms" "list_all ascii_digit ymdhms"
  then show "strptime ymdhms = Inr (fields ymdhms)"
    by (rule strptime_valid)
qed

lemma valid_create_orders: "valid_timestamp (str ''20230615143000'')"
  by code_simp

lemma ascii_create_orders: "list_all ascii_digit (str ''20230615143000'')"
  by code_simp

lemma fields_create_orders:
  "fields (str ''20230615143000'') =
     \<lparr>year = 2023, month = 6, day = 15, hour = 14, minute = 30, second = 0, microsecond = 0\<rparr>"
  by code_simp

theorem unix_ms_multiple_of_1000_witness:
  "pat_match (str ''20230615143000_create_orders.ts'') = Some (str ''20230615143000'', str ''create_orders'')
   \<and> valid_timestamp (str ''20230615143000'') \<and> list_all ascii_digit (str ''20230615143000'')
   \<and> strptime (str ''20230615143000'') = Inr (fields (str ''20230615143000''))
   \<and> unix_ms (fields (str ''20230615143000''))
       = py_int (timestamp (fields (str ''20230615143000''))) * 1000
   \<and> unix_ms (fields (str ''20230615143000'')) mod 1000 = 0
   \<and> timestamp (fields (str ''20230615143000'')) * 1000
       = of_int (unix_ms (fields (str ''20230615143000'')))
   \<and> \<bar>unix_ms (fields (str ''20230615143000''))\<bar> < 2 ^ 53"
proof -
  note t = unix_ms_multiple_of_1000 [OF pat_match_create_orders,
      of "fields (str ''20230615143000'')"]
  note p = mp [OF mp [OF conjunct2 [OF t] valid_create_orders] ascii_create_orders]
  note r = conjunct2 [OF mp [OF conjunct1 [OF t] p]]
  show ?thesis
    by (rule conjI [OF pat_match_create_orders conjI [OF valid_create_orders
          conjI [OF ascii_create_orders conjI [OF p r]]]])
qed

subsection \<open>The scenario of the specification\<close>

lemma plan_create_orders:
  "plan (joinpath MIG_DIR (str ''20230615143000_create_orders.ts'')) =
     Inr (Some ((joinpath MIG_DIR (str ''20230615143000_create_orders.ts''),
                 joinpath MIG_DIR (str ''1686839400000_create_orders.ts'')),
                (str ''20230615143000_create_orders'', str ''1686839400000_create_orders'')))"
  by code_simp

lemma lines_create_orders:
  "mv_line (joinpath MIG_DIR (str ''20230615143000_create_orders.ts''),
            joinpath MIG_DIR (str ''1686839400000_create_orders.ts''))
   = str ''mv src/migrations/20230615143000_create_orders.ts src/migrations/1686839400000_create_orders.ts''"
  "sql_line (str ''20230615143000_create_orders'', str ''1686839400000_create_orders'')
   = str ''update inventory_schema_migrations set name='' @ [squote] @ str ''1686839400000_create_orders''
     @ [squote] @ str '' where name='' @ [squote] @ str ''20230615143000_create_orders'' @ [squote] @ str '';''"
  by code_simp+

lemma suffix_create_orders: "path_suffix (joinpath MIG_DIR (str ''20230615143000_create_orders.ts'')) = str ''.ts''"
  by code_simp

text \<open>
  Claim C2.  On a directory that holds the one file
  \<^verbatim>\<open>20230615143000_create_orders.ts\<close> the run prints the header, the line
  \<^verbatim>\<open>mv src/migrations/20230615143000_create_orders.ts src/migrations/1686839400000_create_orders.ts\<close>,
  the second header and the line
  \<^verbatim>\<open>update inventory_schema_migrations set name='1686839400000_create_orders' where name='20230615143000_create_orders';\<close>
  and nothing else.  On any directory that holds this file, a run that ends normally
  prints these two lines.
\<close>

theorem create_orders_scenario:
  "main [str ''20230615143000_create_orders.ts''] =
     (None,
      \<lparr>renames = [(joinpath MIG_DIR (str ''20230615143000_create_orders.ts''),
                    joinpath MIG_DIR (str ''1686839400000_create_orders.ts''))],
       sql_updates = [(str ''20230615143000_create_orders'', str ''1686839400000_create_orders'')],
       stdout =
         [str ''# mv commands:'',
          str ''mv src/migrations/20230615143000_create_orders.ts src/migrations/1686839400000_create_orders.ts'',
          newline # str ''# SQL updates for inventory_schema_migrations (run these in psql):'',
          str ''update inventory_schema_migrations set name='' @ [squote] @ str ''1686839400000_create_orders''
          @ [squote] @ str '' where name='' @ [squote] @ str ''20230615143000_create_orders'' @ [squote]
          @ str '';'']\<rparr>)
   \<and> (str ''20230615143000_create_orders.ts'' \<in> set listing \<longrightarrow> fst (main listing) = None \<longrightarrow>
        (str ''mv src/migrations/20230615143000_create_orders.ts src/migrations/1686839400000_create_orders.ts'')
          \<in> set (stdout (snd (main listing)))
        \<and> (str ''update inventory_schema_migrations set name='') @ [squote] @ str ''1686839400000_create_orders''
          @ [squote] @ str '' where name='' @ [squote] @ str ''20230615143000_create_orders'' @ [squote]
          @ str '';'' \<in> set (stdout (snd (main listing))))"
proof (intro conjI impI)
  show "main [str ''20230615143000_create_orders.ts''] =
     (None,
      \<lparr>renames = [(joinpath MIG_DIR (str ''20230615143000_create_orders.ts''),
                    joinpath MIG_DIR (str ''1686839400000_create_orders.ts''))],
       sql_updates = [(str ''20230615143000_create_orders'', str ''1686839400000_create_orders'')],
       stdout =
         [str ''# mv commands:'',
          str ''mv src/migrations/20230615143000_create_orders.ts src/migrations/1686839400000_create_orders.ts'',
          newline # str ''# SQL updates for inventory_schema_migrations (run these in psql):'',
          str ''update inventory_schema_migrations set name='' @ [squote] @ str ''1686839400000_create_orders''
          @ [squote] @ str '' where name='' @ [squote] @ str ''20230615143000_create_orders'' @ [squote]
          @ str '';'']\<rparr>)"
    by (rule run_create_orders)
next
  assume x: "str ''20230615143000_create_orders.ts'' \<in> set listing" and ok: "fst (main listing) = None"
  let ?e = "((joinpath MIG_DIR (str ''20230615143000_create_orders.ts''),
                 joinpath MIG_DIR (str ''1686839400000_create_orders.ts'')),
                (str ''20230615143000_create_orders'', str ''1686839400000_create_orders''))"
  from x have "joinpath MIG_DIR (str ''20230615143000_create_orders.ts'') \<in> set (files listing)"
    unfolding files_set using suffix_create_orders by blast
  moreover from ok have fe: "first_error (files listing) = None"
    by (simp add: main_plan)
  ultimately have e: "?e \<in> set (entries (files listing))"
    using plan_create_orders by (rule entries_member)
  have out: "stdout (snd (main listing)) = report (entries (files listing))"
    by (simp add: main_plan fe)
  have "mv_line (fst ?e) \<in> set (report (entries (files listing)))"
    "sql_line (snd ?e) \<in> set (report (entries (files listing)))"
    unfolding report_def using e by (auto simp del: fst_conv snd_conv)
  then show "str ''mv src/migrations/20230615143000_create_orders.ts src/migrations/1686839400000_create_orders.ts''
          \<in> set (stdout (snd (main listing)))"
    and "str ''update inventory_schema_migrations set name='' @ [squote] @ str ''1686839400000_create_orders''
          @ [squote] @ str '' where name='' @ [squote] @ str ''20230615143000_create_orders'' @ [squote]
          @ str '';'' \<in> set (stdout (snd (main listing)))"
    unfolding out fst_conv snd_conv lines_create_orders by simp_all
qed

theorem create_orders_scenario_witness:
  "str ''20230615143000_create_orders.ts'' \<in> set [str ''notes.ts'', str ''20230615143000_create_orders.ts'']
   \<and> fst (main [str ''notes.ts'', str ''20230615143000_create_orders.ts'']) = None
   \<and> (str ''mv src/migrations/20230615143000_create_orders.ts src/migrations/1686839400000_create_orders.ts'')
          \<in> set (stdout (snd (main [str ''notes.ts'', str ''20230615143000_create_orders.ts''])))
   \<and> (str ''update inventory_schema_migrations set name='') @ [squote] @ str ''1686839400000_create_orders''
          @ [squote] @ str '' where name='' @ [squote] @ str ''20230615143000_create_orders'' @ [squote]
          @ str '';'' \<in> set (stdout (snd (main [str ''notes.ts'', str ''20230615143000_create_orders.ts''])))"
proof -
  have 1: "str ''20230615143000_create_orders.ts'' \<in> set [str ''notes.ts'', str ''20230615143000_create_orders.ts'']"
    by simp
  have 2: "fst (main [str ''notes.ts'', str ''20230615143000_create_orders.ts'']) = None"
    by (simp add: run_notes run_create_orders)
  from create_orders_scenario [of "[str ''notes.ts'', str ''20230615143000_create_orders.ts'']"] 1 2
  show ?thesis by (intro conjI) (rule 1, rule 2, simp_all only: simp_thms)
qed

subsection \<open>Decimal strings\<close>

lemma str_digits_digits: "0 \<le> n \<Longrightarrow> list_all is_digit (str_digits n)"
proof (induction n rule: str_digits.induct)
  case (1 n)
  show ?case
  proof (cases "n < 10")
    case True
    with "1.prems" show ?thesis
      by (subst str_digits.simps) (simp add: is_digit_digit_char)
  next
    case False
    with "1.prems" have "list_all is_digit (str_digits (n div 10))"
      by (intro "1.IH") simp_all
    moreover have "is_digit (digit_char (n mod 10))"
      by (rule is_digit_digit_char) simp_all
    ultimately show ?thesis using False
      by (subst str_digits.simps) simp
  qed
qed

lemma str_digits_length_le:
  "0 \<le> n \<Longrightarrow> n < 10 ^ Suc k \<Longrightarrow> length (str_digits n) \<le> Suc k"
proof (induction n arbitrary: k rule: str_digits.induct)
  case (1 n)
  show ?case
  proof (cases "n < 10")
    case True
    then show ?thesis by (subst str_digits.simps) simp
  next
    case False
    with "1.prems" obtain j where k: "k = Suc j"
      by (cases k) simp_all
    from "1.prems" k have "n div 10 < 10 ^ Suc j"
      by simp
    with False "1.prems" have "length (str_digits (n div 10)) \<le> Suc j"
      by (intro "1.IH") simp_all
    with False k show ?thesis
      by (subst str_digits.simps) simp
  qed
qed

lemma str_digits_length_gt:
  "10 ^ k \<le> n \<Longrightarrow> k < length (str_digits n)"
proof (induction n arbitrary: k rule: str_digits.induct)
  case (1 n)
  show ?case
  proof (cases "n < 10")
    case True
    have "k = 0"
    proof (cases k)
      case 0
      then show ?thesis .
    next
      case (Suc j)
      have "(1::int) \<le> 10 ^ j" by simp
      then have "(10::int) \<le> 10 * 10 ^ j" by linarith
      with "1.prems" True Suc show ?thesis by simp
    qed
    with True show ?thesis by (subst str_digits.simps) simp
  next
    case False
    show ?thesis
    proof (cases k)
      case 0
      with False show ?thesis by (subst str_digits.simps) simp
    next
      case (Suc j)
      with "1.prems" have "10 ^ j \<le> n div 10"
        by simp
      with False have "j < length (str_digits (n div 10))"
        by (intro "1.IH") simp_all
      with False Suc show ?thesis
        by (subst str_digits.simps) simp
    qed
  qed
qed

lemma new_name_unmatched:
  assumes "ms < 10 ^ 13 \<or> 10 ^ 14 \<le> ms"
  shows "pat_match (str_int ms @ str ''_'' @ rest @ str ''.ts'') = None"
proof -
  define s where "s = str_int ms @ str ''_'' @ rest @ str ''.ts''"
  consider "ms < 0" | "0 \<le> ms" "ms < 10 ^ 13" | "10 ^ 14 \<le> ms"
    using assms by linarith
  then have "\<not> (list_all is_digit (take 14 s) \<and> (\<exists>r2. drop 14 s = cp CHR ''_'' # r2))"
  proof cases
    case 1
    then have "s = cp CHR ''-'' # str_digits (- ms) @ str ''_'' @ rest @ str ''.ts''"
      by (simp add: s_def str_int_def)
    then show ?thesis by simp
  next
    case 2
    then have l: "length (str_digits ms) \<le> 13"
      using str_digits_length_le [of ms 12] by simp
    from 2 have s: "s = str_digits ms @ cp CHR ''_'' # rest @ str ''.ts''"
      by (simp add: s_def str_int_def)
    have "take 14 s ! length (str_digits ms) = cp CHR ''_''"
      using l by (simp add: s nth_append)
    moreover have "length (str_digits ms) < length (take 14 s)"
      using l by (simp add: s)
    ultimately have "cp CHR ''_'' \<in> set (take 14 s)"
      by (metis nth_mem)
    then have "\<not> list_all is_digit (take 14 s)"
      by (auto simp: list_all_iff intro: bexI [where x = 95])
    then show ?thesis by simp
  next
    case 3
    then have l: "14 < length (str_digits ms)"
      by (rule str_digits_length_gt)
    from 3 have d: "list_all is_digit (str_digits ms)"
      by (intro str_digits_digits) simp
    from 3 have s: "s = str_digits ms @ cp CHR ''_'' # rest @ str ''.ts''"
      by (simp add: s_def str_int_def)
    from l have "drop 14 (str_digits ms) = str_digits ms ! 14 # drop (Suc 14) (str_digits ms)"
      by (intro Cons_nth_drop_Suc [symmetric])
    with l have "drop 14 s = str_digits ms ! 14 # drop (Suc 14) (str_digits ms) @ cp CHR ''_'' # rest @ str ''.ts''"
      by (simp add: s)
    moreover from l d have "is_digit (str_digits ms ! 14)"
      by (simp add: list_all_length)
    ultimately show ?thesis
      using not_digit(1) by auto
  qed
  then have "pat_match s = None"
    by (auto simp: pat_match_def Let_def split: list.splits)
  then show ?thesis by (simp add: s_def)
qed

lemma entries_none:
  "\<forall>p\<in>set ps. plan p = Inr None \<Longrightarrow> entries ps = [] \<and> first_error ps = None"
  by (induction ps) simp_all

lemma main_unmatched:
  assumes "\<forall>n\<in>set listing. pat_match n = None"
  shows "main listing = (None, \<lparr>renames = [], sql_updates = [], stdout = [mv_header, sql_header]\<rparr>)"
proof -
  have "\<forall>p\<in>set (files listing). plan p = Inr None"
    using assms by (auto simp: files_set plan_def)
  from entries_none [OF this] show ?thesis
    by (simp add: main_plan report_def)
qed

subsection \<open>A second run\<close>

text \<open>
  Claim C3, as the specification states it, fails: a timestamp whose number of
  milliseconds has 14 digits gives a new name that matches the pattern again.  The file
  \<^verbatim>\<open>26110131151903_x.ts\<close> is renamed to \<^verbatim>\<open>20230615143000_x.ts\<close>, and a second run over
  the renamed file prints a rename and an SQL update for it.
\<close>

theorem second_run_counterexample:
  "fst (main [str ''26110131151903_x.ts'']) = None
   \<and> renamed (snd (main [str ''26110131151903_x.ts''])) = [str ''20230615143000_x.ts'']
   \<and> renames (snd (main (renamed (snd (main [str ''26110131151903_x.ts''])))))
       = [(joinpath MIG_DIR (str ''20230615143000_x.ts''), joinpath MIG_DIR (str ''1686839400000_x.ts''))]
   \<and> sql_updates (snd (main (renamed (snd (main [str ''26110131151903_x.ts''])))))
       = [(str ''20230615143000_x'', str ''1686839400000_x'')]
   \<and> stdout (snd (main (renamed (snd (main [str ''26110131151903_x.ts''])))))
       \<noteq> [mv_header, sql_header]"
  by code_simp

text \<open>
  Claim C3, amended.  When no file of the first run has a number of milliseconds of
  exactly 14 digits (from \<open>10 ^ 13\<close> to \<open>10 ^ 14 - 1\<close>: the timestamps from
  2286-11-20 17:46:40 to 5138-11-16 09:46:39), a second run over the new names of the
  first run's rename entries ends normally with no rename entry and no SQL entry, and
  prints the two headers only.
\<close>

theorem second_run_empty:
  assumes "\<forall>n\<in>set listing. \<forall>ymdhms rest dt.
             pat_match n = Some (ymdhms, rest) \<longrightarrow> strptime ymdhms = Inr dt \<longrightarrow>
             unix_ms dt < 10 ^ 13 \<or> 10 ^ 14 \<le> unix_ms dt"
  shows "main (renamed (snd (main listing)))
         = (None, \<lparr>renames = [], sql_updates = [], stdout = [mv_header, sql_header]\<rparr>)"
proof (rule main_unmatched, rule ballI)
  fix n
  assume "n \<in> set (renamed (snd (main listing)))"
  then obtain e where e: "e \<in> set (entries (files listing))" and n: "n = path_name (snd (fst e))"
    by (auto simp: renamed_def main_plan)
  from entries_origin [OF e] have q: "fst (fst e) \<in> set (files listing)"
    and pl: "plan (fst (fst e)) = Inr (Some e)" by simp_all
  from plan_Some_facts(5) [OF pl] obtain ymdhms rest dt where
    m: "pat_match (path_name (fst (fst e))) = Some (ymdhms, rest)" and t: "strptime ymdhms = Inr dt"
    and b: "snd (snd e) = str_int (unix_ms dt) @ str ''_'' @ rest"
    by blast
  from q have "path_name (fst (fst e)) \<in> set listing"
    by (auto simp: files_set)
  with assms m t have "unix_ms dt < 10 ^ 13 \<or> 10 ^ 14 \<le> unix_ms dt"
    by blast
  then have "pat_match (str_int (unix_ms dt) @ str ''_'' @ rest @ str ''.ts'') = None"
    by (rule new_name_unmatched)
  moreover have "n = str_int (unix_ms dt) @ str ''_'' @ rest @ str ''.ts''"
    using n plan_Some_facts(3) [OF pl] b by simp
  ultimately show "pat_match n = None" by simp
qed

lemma run_create_orders_renamed:
  "renamed (snd (main [str ''20230615143000_create_orders.ts''])) = [str ''1686839400000_create_orders.ts'']"
  by (simp add: run_create_orders renamed_def)

lemma unix_ms_create_orders:
  "unix_ms \<lparr>year = 2023, month = 6, day = 15, hour = 14, minute = 30, second = 0, microsecond = 0\<rparr>
   = 1686839400000"
  by code_simp

theorem second_run_empty_witness:
  "main [str ''1686839400000_create_orders.ts'']
   = (None, \<lparr>renames = [], sql_updates = [], stdout = [mv_header, sql_header]\<rparr>)"
proof -
  have "\<forall>n\<in>set [str ''20230615143000_create_orders.ts'']. \<forall>ymdhms rest dt.
             pat_match n = Some (ymdhms, rest) \<longrightarrow> strptime ymdhms = Inr dt \<longrightarrow>
             unix_ms dt < 10 ^ 13 \<or> 10 ^ 14 \<le> unix_ms dt"
    by (simp add: pat_match_create_orders strptime_create_orders unix_ms_create_orders)
  from second_run_empty [OF this] show ?thesis
    by (simp only: run_create_orders_renamed)
qed

subsection \<open>From a day number back to the date\<close>

lemma month_day_step:
  assumes "(n + 50) div 32 = q"
    and "p = DAYS_BEFORE_MONTH ! nat q + (if q > 2 \<and> L then 1 else 0)"
  shows "month_day L n =
    (if p > n then (q - 1, n - (p - (DAYS_IN_MONTH ! nat (q - 1) + (if q - 1 = 2 \<and> L then 1 else 0))) + 1)
     else (q, n - p + 1))"
  using assms by (simp add: month_day_def Let_def)

lemma month_day_from_q:
  assumes q: "(n + 50) div 32 = m \<or> (n + 50) div 32 = m + 1 \<and> m < 12"
    and lo: "DAYS_BEFORE_MONTH ! nat m + (if m > 2 \<and> L then 1 else 0) \<le> n"
    and hi: "m < 12 \<Longrightarrow> n < DAYS_BEFORE_MONTH ! nat (m + 1) + (if m + 1 > 2 \<and> L then 1 else 0)"
    and tab: "m < 12 \<Longrightarrow>
        DAYS_BEFORE_MONTH ! nat (m + 1) + (if m + 1 > 2 \<and> L then 1 else 0)
        - (DAYS_IN_MONTH ! nat m + (if m = 2 \<and> L then 1 else 0))
        = DAYS_BEFORE_MONTH ! nat m + (if m > 2 \<and> L then 1 else 0)"
  shows "month_day L n = (m, n - (DAYS_BEFORE_MONTH ! nat m + (if m > 2 \<and> L then 1 else 0)) + 1)"
  using q
proof
  assume q1: "(n + 50) div 32 = m"
  from lo show ?thesis
    by (subst month_day_step [OF q1 refl]) simp
next
  assume "(n + 50) div 32 = m + 1 \<and> m < 12"
  then have q2: "(n + 50) div 32 = m + 1" and m: "m < 12" by simp_all
  from hi [OF m] tab [OF m] show ?thesis
    by (subst month_day_step [OF q2 refl]) simp
qed

lemma month_day_correct:
  assumes "1 \<le> m" "m \<le> 12" "1 \<le> d" "d \<le> days_in_month y m"
  shows "month_day (is_leap y) (days_before_month y m + d - 1) = (m, d)"
proof -
  from assms(1,2) have "m = 1 \<or> m = 2 \<or> m = 3 \<or> m = 4 \<or> m = 5 \<or> m = 6 \<or> m = 7 \<or> m = 8 \<or> m = 9
      \<or> m = 10 \<or> m = 11 \<or> m = 12" by arith
  then have "month_day (is_leap y) (days_before_month y m + d - 1)
      = (m, days_before_month y m + d - 1
            - (DAYS_BEFORE_MONTH ! nat m + (if m > 2 \<and> is_leap y then 1 else 0)) + 1)"
    using assms(3,4)
    by (elim disjE; intro month_day_from_q;
        simp add: days_before_month_def days_in_month_def DAYS_BEFORE_MONTH_def DAYS_IN_MONTH_def
          split: if_splits; arith?)
  then show ?thesis
    by (simp add: days_before_month_def)
qed

lemma divmod_step:
  fixes q a r :: int
  assumes "0 \<le> r" "r < q"
  shows "(q * a + r) div q = a" "(q * a + r) mod q = r"
proof -
  from assms have q: "q \<noteq> 0" by auto
  show "(q * a + r) div q = a"
    using assms q by simp
  show "(q * a + r) mod q = r"
    using assms by simp
qed

lemma year_decomp:
  assumes "1 \<le> y"
  obtains a b c e :: int where "y - 1 = 400 * a + 100 * b + 4 * c + e"
    "0 \<le> a" "0 \<le> b" "b \<le> 3" "0 \<le> c" "c \<le> 24" "0 \<le> e" "e \<le> 3"
proof
  define Y where "Y = y - 1"
  define r where "r = Y mod 400"
  define s where "s = r mod 100"
  have 1: "Y = 400 * (Y div 400) + r"
    by (simp add: r_def)
  have 2: "r = 100 * (r div 100) + s"
    by (simp add: s_def)
  have 3: "s = 4 * (s div 4) + s mod 4"
    by simp
  have r: "0 \<le> r" "r < 400" by (simp_all add: r_def)
  have s: "0 \<le> s" "s < 100" by (simp_all add: s_def)
  from 1 2 3 show "y - 1 = 400 * (Y div 400) + 100 * (r div 100) + 4 * (s div 4) + s mod 4"
    unfolding Y_def [symmetric] by linarith
  show "0 \<le> Y div 400" using assms by (simp add: Y_def)
  show "0 \<le> r div 100" using r by simp
  show "r div 100 \<le> 3" using r by simp
  show "0 \<le> s div 4" using s by simp
  show "s div 4 \<le> 24" using s by simp
  show "0 \<le> s mod 4" by simp
  show "s mod 4 \<le> 3" by simp
qed

lemma days_before_year_decomp:
  assumes "y - 1 = 400 * a + 100 * b + 4 * c + e"
    "0 \<le> b" "b \<le> 3" "0 \<le> c" "c \<le> 24" "0 \<le> e" "e \<le> 3"
  shows "days_before_year y = 146097 * a + (36524 * b + (1461 * c + 365 * e))"
proof -
  have 4: "(y - 1) div 4 = 100 * a + 25 * b + c"
    using assms by arith
  have 100: "(y - 1) div 100 = 4 * a + b"
    using assms by arith
  have 400: "(y - 1) div 400 = a"
    using assms by arith
  show ?thesis
    unfolding days_before_year_def Let_def 4 100 400 using assms(1) by simp
qed

lemma mod_succ:
  fixes q A r :: int
  assumes "0 \<le> r" "r < q"
  shows "(q * A + r + 1) mod q = 0 \<longleftrightarrow> r = q - 1"
proof (cases "r = q - 1")
  case True
  then have "q * A + r + 1 = q * (A + 1)"
    by (simp add: algebra_simps)
  with True show ?thesis by simp
next
  case False
  with assms have "0 \<le> r + 1" "r + 1 < q" by simp_all
  from divmod_step(2) [OF this, of A] have "(q * A + r + 1) mod q = r + 1"
    by (simp add: add.assoc)
  with False assms show ?thesis by simp
qed

lemma is_leap_decomp:
  assumes "y - 1 = 400 * a + 100 * b + 4 * c + e"
    "0 \<le> b" "b \<le> 3" "0 \<le> c" "c \<le> 24" "0 \<le> e" "e \<le> 3"
  shows "is_leap y \<longleftrightarrow> e = 3 \<and> (c \<noteq> 24 \<or> b = 3)"
proof -
  have y4: "y = 4 * (100 * a + 25 * b + c) + e + 1"
    using assms(1) by simp
  have "y mod 4 = 0 \<longleftrightarrow> e = 4 - 1"
    unfolding y4 by (rule mod_succ) (use assms in simp_all)
  then have 4: "y mod 4 = 0 \<longleftrightarrow> e = 3" by simp
  have y100: "y = 100 * (4 * a + b) + (4 * c + e) + 1"
    using assms(1) by simp
  have "y mod 100 = 0 \<longleftrightarrow> 4 * c + e = 100 - 1"
    unfolding y100 by (rule mod_succ) (use assms in simp_all)
  moreover have "4 * c + e = 100 - 1 \<longleftrightarrow> c = 24 \<and> e = 3"
    using assms(4-7) by presburger
  ultimately have 100: "y mod 100 = 0 \<longleftrightarrow> c = 24 \<and> e = 3"
    by simp
  have y400: "y = 400 * a + (100 * b + 4 * c + e) + 1"
    using assms(1) by simp
  have "y mod 400 = 0 \<longleftrightarrow> 100 * b + 4 * c + e = 400 - 1"
    unfolding y400 by (rule mod_succ) (use assms in simp_all)
  moreover have "100 * b + 4 * c + e = 400 - 1 \<longleftrightarrow> b = 3 \<and> c = 24 \<and> e = 3"
    using assms(2-7) by presburger
  ultimately have 400: "y mod 400 = 0 \<longleftrightarrow> b = 3 \<and> c = 24 \<and> e = 3"
    by simp
  show ?thesis
    unfolding is_leap_def 4 100 400 by auto
qed

lemma ord2ymd_regular:
  assumes "0 \<le> b" "b \<le> 3" "0 \<le> c" "c \<le> 24" "0 \<le> e" "e \<le> 3" "0 \<le> k" "k \<le> 364"
  shows "ord2ymd (146097 * a + (36524 * b + (1461 * c + (365 * e + k))) + 1)
         = (400 * a + 100 * b + 4 * c + e + 1,
            fst (month_day (e = 3 \<and> (c \<noteq> 24 \<or> b = 3)) k),
            snd (month_day (e = 3 \<and> (c \<noteq> 24 \<or> b = 3)) k))"
proof -
  have r1: "0 \<le> 36524 * b + (1461 * c + (365 * e + k))" "36524 * b + (1461 * c + (365 * e + k)) < 146097"
    using assms by simp_all
  have r2: "0 \<le> 1461 * c + (365 * e + k)" "1461 * c + (365 * e + k) < 36524"
    using assms by simp_all
  have r3: "0 \<le> 365 * e + k" "365 * e + k < 1461"
    using assms by simp_all
  have r4: "0 \<le> k" "k < 365"
    using assms by simp_all
  note s1 = divmod_step [OF r1, of a] and s2 = divmod_step [OF r2, of b]
    and s3 = divmod_step [OF r3, of c] and s4 = divmod_step [OF r4, of e]
  show ?thesis
    unfolding ord2ymd_def add_diff_cancel_right' Let_def s1 s2 s3 s4
    using assms by simp
qed

lemma ord2ymd_end_of_4:
  assumes "0 \<le> b" "b \<le> 3" "0 \<le> c" "c \<le> 23"
  shows "ord2ymd (146097 * a + (36524 * b + (1461 * c + (365 * 4 + 0))) + 1)
         = (400 * a + 100 * b + 4 * c + 4, 12, 31)"
proof -
  have r1: "0 \<le> 36524 * b + (1461 * c + (365 * 4 + 0))" "36524 * b + (1461 * c + (365 * 4 + 0)) < 146097"
    using assms by simp_all
  have r2: "0 \<le> 1461 * c + (365 * 4 + 0)" "1461 * c + (365 * 4 + 0) < 36524"
    using assms by simp_all
  have r3: "(0::int) \<le> 365 * 4 + 0" "(365::int) * 4 + 0 < 1461"
    by simp_all
  have r4: "(0::int) \<le> 0" "(0::int) < 365"
    by simp_all
  note s1 = divmod_step [OF r1, of a] and s2 = divmod_step [OF r2, of b]
    and s3 = divmod_step [OF r3, of c] and s4 = divmod_step [OF r4, of 4]
  show ?thesis
    unfolding ord2ymd_def add_diff_cancel_right' Let_def s1 s2 s3 s4
    by simp
qed

lemma ord2ymd_end_of_400:
  "ord2ymd (146097 * a + (36524 * 4 + (1461 * 0 + (365 * 0 + 0))) + 1) = (400 * a + 400, 12, 31)"
proof -
  have r1: "(0::int) \<le> 36524 * 4 + (1461 * 0 + (365 * 0 + 0))"
    "(36524::int) * 4 + (1461 * 0 + (365 * 0 + 0)) < 146097"
    by simp_all
  have r2: "(0::int) \<le> 1461 * 0 + (365 * 0 + 0)" "(1461::int) * 0 + (365 * 0 + 0) < 36524"
    by simp_all
  have r3: "(0::int) \<le> 365 * 0 + 0" "(365::int) * 0 + 0 < 1461"
    by simp_all
  have r4: "(0::int) \<le> 0" "(0::int) < 365"
    by simp_all
  note s1 = divmod_step [OF r1, of a] and s2 = divmod_step [OF r2, of 4]
    and s3 = divmod_step [OF r3, of 0] and s4 = divmod_step [OF r4, of 0]
  show ?thesis
    unfolding ord2ymd_def add_diff_cancel_right' Let_def s1 s2 s3 s4
    by simp
qed

lemma day_of_year_bounds:
  assumes "1 \<le> m" "m \<le> 12" "1 \<le> d" "d \<le> days_in_month y m"
  shows "0 \<le> days_before_month y m + d - 1"
    "days_before_month y m + d - 1 \<le> (if is_leap y then 365 else 364)"
    "days_before_month y m + d - 1 = 365 \<longrightarrow> m = 12 \<and> d = 31"
proof -
  from assms(1,2) have m: "m = 1 \<or> m = 2 \<or> m = 3 \<or> m = 4 \<or> m = 5 \<or> m = 6 \<or> m = 7 \<or> m = 8 \<or> m = 9
      \<or> m = 10 \<or> m = 11 \<or> m = 12" by arith
  from m assms(3,4) show "0 \<le> days_before_month y m + d - 1"
    by (auto simp: days_before_month_def days_in_month_def DAYS_BEFORE_MONTH_def DAYS_IN_MONTH_def)
  from m assms(3,4) show "days_before_month y m + d - 1 \<le> (if is_leap y then 365 else 364)"
    by (auto simp: days_before_month_def days_in_month_def DAYS_BEFORE_MONTH_def DAYS_IN_MONTH_def
        split: if_splits)
  from m assms(3,4) show "days_before_month y m + d - 1 = 365 \<longrightarrow> m = 12 \<and> d = 31"
    by (auto simp: days_before_month_def days_in_month_def DAYS_BEFORE_MONTH_def DAYS_IN_MONTH_def
        split: if_splits)
qed

lemma ord2ymd_ymd2ord:
  assumes "check_date_fields y m d"
  shows "ord2ymd (ymd2ord y m d) = (y, m, d)"
proof -
  from assms have y: "1 \<le> y" and md: "1 \<le> m" "m \<le> 12" "1 \<le> d" "d \<le> days_in_month y m"
    by (simp_all add: check_date_fields_def)
  from y obtain a b c e :: int where dec: "y - 1 = 400 * a + 100 * b + 4 * c + e"
    and bd: "0 \<le> b" "b \<le> 3" "0 \<le> c" "c \<le> 24" "0 \<le> e" "e \<le> 3"
    by (rule year_decomp)
  note dby = days_before_year_decomp [OF dec bd] and leap = is_leap_decomp [OF dec bd]
  define k where "k = days_before_month y m + d - 1"
  note kb = day_of_year_bounds [OF md, folded k_def]
  have ord: "ymd2ord y m d = 146097 * a + (36524 * b + (1461 * c + (365 * e + k))) + 1"
    by (simp add: ymd2ord_def dby k_def)
  show ?thesis
  proof (cases "k = 365")
    case False
    with kb(2) have k: "k \<le> 364" by (simp split: if_splits)
    have "month_day (is_leap y) k = (m, d)"
      unfolding k_def using md by (rule month_day_correct)
    then have "month_day (e = 3 \<and> (c \<noteq> 24 \<or> b = 3)) k = (m, d)"
      by (simp add: leap)
    with ord2ymd_regular [OF bd kb(1) k, of a] dec show ?thesis
      unfolding ord by simp
  next
    case True
    with kb have l: "is_leap y" and m: "m = 12" and d: "d = 31"
      by (simp_all split: if_splits)
    from l leap have e: "e = 3" and cb: "c \<noteq> 24 \<or> b = 3" by simp_all
    show ?thesis
    proof (cases "c = 24")
      case False
      with bd have c: "c \<le> 23" by simp
      have "ymd2ord y m d = 146097 * a + (36524 * b + (1461 * c + (365 * 4 + 0))) + 1"
        unfolding ord by (simp add: e True)
      with ord2ymd_end_of_4 [OF bd(1-3) c, of a] dec e m d show ?thesis
        by simp
    next
      case c: True
      with cb have b: "b = 3" by simp
      have "ymd2ord y m d = 146097 * a + (36524 * 4 + (1461 * 0 + (365 * 0 + 0))) + 1"
        unfolding ord by (simp add: e True b c)
      with ord2ymd_end_of_400 [of a] dec e b c m d show ?thesis
        by simp
    qed
  qed
qed

subsection \<open>The round trip\<close>

lemma str_digits_nonempty: "str_digits n \<noteq> []"
  by (subst str_digits.simps) simp

lemma int_of_str_digits: "0 \<le> n \<Longrightarrow> int_of_digits (str_digits n) = n"
proof (induction n rule: str_digits.induct)
  case (1 n)
  show ?case
  proof (cases "n < 10")
    case True
    with "1.prems" show ?thesis
      by (subst str_digits.simps) (simp add: int_of_digits_def digit_val_digit_char)
  next
    case False
    with "1.prems" have "int_of_digits (str_digits (n div 10)) = n div 10"
      by (intro "1.IH") simp_all
    moreover have "digit_val (digit_char (n mod 10)) = n mod 10"
      by (rule digit_val_digit_char) simp_all
    ultimately show ?thesis using False
      by (subst str_digits.simps) (simp add: int_of_digits_snoc)
  qed
qed

lemma ms_of_base_new_base: "ms_of_base (str_int n @ str ''_'' @ rest) = n"
proof -
  have nu: "\<forall>c\<in>set (str_int n). c \<noteq> cp CHR ''_''"
  proof (cases "n < 0")
    case True
    then have "list_all is_digit (str_digits (- n))"
      by (intro str_digits_digits) simp
    with True show ?thesis
      using not_digit(1) by (auto simp: str_int_def list_all_iff)
  next
    case False
    then have "list_all is_digit (str_digits n)"
      by (intro str_digits_digits) simp
    with False show ?thesis
      using not_digit(1) by (auto simp: str_int_def list_all_iff)
  qed
  then have t: "takeWhile (\<lambda>c. c \<noteq> cp CHR ''_'') (str_int n @ str ''_'' @ rest) = str_int n"
    by (simp add: takeWhile_tail)
  show ?thesis
  proof (cases "n < 0")
    case True
    then have "int_of_digits (str_digits (- n)) = - n"
      by (intro int_of_str_digits) simp
    with True show ?thesis
      unfolding ms_of_base_def t Let_def by (simp add: str_int_def)
  next
    case False
    then have d: "list_all is_digit (str_digits n)" and v: "int_of_digits (str_digits n) = n"
      by (simp_all add: str_digits_digits int_of_str_digits)
    obtain c ds where cd: "str_digits n = c # ds"
      using str_digits_nonempty [of n] by (cases "str_digits n") simp_all
    with d have "c \<noteq> cp CHR ''-''"
      using not_digit(2) by auto
    with False cd v show ?thesis
      unfolding ms_of_base_def t Let_def by (simp add: str_int_def)
  qed
qed

lemma utc_of_unix_ms:
  assumes "check_date_fields (year dt) (month dt) (day dt)"
    "check_time_fields (hour dt) (minute dt) (second dt) 0" "microsecond dt = 0"
  shows "utc_of_ms (unix_ms dt) = dt"
proof -
  from assms(2) have t: "0 \<le> hour dt" "hour dt \<le> 23" "0 \<le> minute dt" "minute dt \<le> 59"
    "0 \<le> second dt" "second dt \<le> 59"
    by (simp_all add: check_time_fields_def)
  define r where "r = 3600 * hour dt + (60 * minute dt + second dt)"
  define od where "od = toordinal dt - toordinal EPOCH"
  have ms: "unix_ms dt = 1000 * (86400 * od + r) + 0"
    unfolding unix_ms_whole [OF assms(3)] by (simp add: epoch_seconds_def r_def od_def)
  have r: "0 \<le> r" "r < 86400"
    using t by (simp_all add: r_def)
  have m: "0 \<le> 60 * minute dt + second dt" "60 * minute dt + second dt < 3600"
    using t by simp_all
  have s: "0 \<le> second dt" "second dt < 60"
    using t by simp_all
  have z: "(0::int) \<le> 0" "(0::int) < 1000" by simp_all
  note d1 = divmod_step [OF z, of "86400 * od + r"] and d2 = divmod_step [OF r, of od]
    and d3 = divmod_step [OF m, of "hour dt", folded r_def]
    and d4 = divmod_step [OF s, of "minute dt"]
  have o: "od + toordinal EPOCH = ymd2ord (year dt) (month dt) (day dt)"
    by (simp add: od_def toordinal_def)
  have "r = 60 * (60 * hour dt + minute dt) + second dt"
    by (simp add: r_def)
  then have d5: "r mod 60 = second dt"
    using divmod_step(2) [OF s, of "60 * hour dt + minute dt"] by simp
  have "utc_of_ms (unix_ms dt) =
      \<lparr>year = year dt, month = month dt, day = day dt, hour = hour dt, minute = minute dt,
       second = second dt, microsecond = 0\<rparr>"
    unfolding utc_of_ms_def ms Let_def d1 d2 d3 d4 d5 o ord2ymd_ymd2ord [OF assms(1)]
    by simp
  also have "\<dots> = dt"
    using assms(3) by (cases dt) simp
  finally show ?thesis .
qed

lemma pad2_digits:
  assumes "is_digit a" "is_digit b"
  shows "pad2 (int_of_digits [a, b]) = ascii_digits [a, b]"
proof -
  from is_digit_val [OF assms(1)] is_digit_val [OF assms(2)]
  have r: "0 \<le> digit_val b" "digit_val b < 10" and q: "0 \<le> digit_val a" "digit_val a < 10"
    by simp_all
  note d = divmod_step [OF r, of "digit_val a"]
  show ?thesis
    unfolding pad2_def int_of_digits_2 d using q assms
    by (simp add: ascii_digits_def)
qed

lemma pad4_digits:
  assumes "is_digit a" "is_digit b" "is_digit c" "is_digit d"
  shows "pad4 (int_of_digits [a, b, c, d]) = ascii_digits [a, b, c, d]"
proof -
  from is_digit_val [OF assms(1)] is_digit_val [OF assms(2)] is_digit_val [OF assms(3)]
    is_digit_val [OF assms(4)]
  have v: "0 \<le> digit_val a" "digit_val a < 10" "0 \<le> digit_val b" "digit_val b < 10"
    "0 \<le> digit_val c" "digit_val c < 10" "0 \<le> digit_val d" "digit_val d < 10"
    by simp_all
  define n where "n = int_of_digits [a, b, c, d]"
  have n0: "n = 10 * (100 * digit_val a + 10 * digit_val b + digit_val c) + digit_val d"
    and n1: "n = 100 * (10 * digit_val a + digit_val b) + (10 * digit_val c + digit_val d)"
    and n2: "n = 1000 * digit_val a + (100 * digit_val b + 10 * digit_val c + digit_val d)"
    by (simp_all add: n_def)
  have m0: "n mod 10 = digit_val d"
    unfolding n0 using v by (intro divmod_step) simp_all
  have d0: "n div 10 = 100 * digit_val a + 10 * digit_val b + digit_val c"
    unfolding n0 using v by (intro divmod_step) simp_all
  have d1: "n div 100 = 10 * digit_val a + digit_val b"
    unfolding n1 using v by (intro divmod_step) simp_all
  have d2: "n div 1000 = digit_val a"
    unfolding n2 using v by (intro divmod_step) simp_all
  have e0: "n div 10 mod 10 = digit_val c"
    unfolding d0 using v divmod_step(2) [of "digit_val c" 10 "10 * digit_val a + digit_val b"] by simp
  have e1: "n div 100 mod 10 = digit_val b"
    unfolding d1 using v by (intro divmod_step) simp_all
  have e2: "n div 1000 mod 10 = digit_val a"
    unfolding d2 using v by simp
  show ?thesis
    unfolding pad4_def n_def [symmetric] m0 e0 e1 e2 using assms
    by (simp add: ascii_digits_def)
qed

lemma ascii_digits_append: "ascii_digits (xs @ ys) = ascii_digits xs @ ascii_digits ys"
  by (simp add: ascii_digits_def)

lemma strftime14_fields:
  assumes "length s = 14" "list_all is_digit s"
  shows "strftime14 (fields s) = ascii_digits s"
proof -
  from assms(1) obtain c0 c1 c2 c3 c4 c5 c6 c7 c8 c9 c10 c11 c12 c13
    where s: "s = [c0, c1, c2, c3, c4, c5, c6, c7, c8, c9, c10, c11, c12, c13]"
    by (rule len14)
  from assms(2) s have dg: "is_digit c0" "is_digit c1" "is_digit c2" "is_digit c3" "is_digit c4"
    "is_digit c5" "is_digit c6" "is_digit c7" "is_digit c8" "is_digit c9" "is_digit c10"
    "is_digit c11" "is_digit c12" "is_digit c13"
    by simp_all
  have f: "fields s = \<lparr>year = int_of_digits [c0, c1, c2, c3], month = int_of_digits [c4, c5],
      day = int_of_digits [c6, c7], hour = int_of_digits [c8, c9], minute = int_of_digits [c10, c11],
      second = int_of_digits [c12, c13], microsecond = 0\<rparr>"
    unfolding fields_def s by simp
  have a: "ascii_digits s = ascii_digits [c0, c1, c2, c3] @ ascii_digits [c4, c5]
      @ ascii_digits [c6, c7] @ ascii_digits [c8, c9] @ ascii_digits [c10, c11]
      @ ascii_digits [c12, c13]"
    unfolding s ascii_digits_append [symmetric] by simp
  show ?thesis
    unfolding f strftime14_def a
    by (simp only: datetime.simps pad4_digits [OF dg(1-4)] pad2_digits [OF dg(5,6)]
        pad2_digits [OF dg(7,8)] pad2_digits [OF dg(9,10)] pad2_digits [OF dg(11,12)]
        pad2_digits [OF dg(13,14)])
qed

lemma roundtrip_new_base:
  assumes "valid_timestamp ymdhms"
  shows "roundtrip (str_int (unix_ms (fields ymdhms)) @ str ''_'' @ rest) = ascii_digits ymdhms"
proof -
  note c = valid_checks [OF assms]
  have "utc_of_ms (unix_ms (fields ymdhms)) = fields ymdhms"
    using c by (rule utc_of_unix_ms) (simp add: fields_sel)
  moreover have "strftime14 (fields ymdhms) = ascii_digits ymdhms"
    using valid_timestampD(1,2) [OF assms] by (rule strftime14_fields)
  ultimately show ?thesis
    by (simp only: roundtrip_def ms_of_base_new_base)
qed

lemma matched_roundtrip:
  assumes "pat_match name = Some (ymdhms, rest)" "strptime ymdhms = Inr dt"
  shows "roundtrip (str_int (unix_ms dt) @ str ''_'' @ rest) = ascii_digits ymdhms"
proof -
  note pm = pat_matchD [OF assms(1)]
  from strptime_InrD [OF pm(1,2) assms(2)] have v: "valid_timestamp ymdhms"
    and dt: "dt = fields ymdhms"
    by simp_all
  show ?thesis
    unfolding dt using v by (rule roundtrip_new_base)
qed

lemma entry_roundtrip:
  assumes "e \<in> set (entries (files listing))"
  shows "roundtrip (snd (snd e)) = ascii_digits (take 14 (fst (snd e)))"
    "roundtrip (path_stem (snd (fst e))) = ascii_digits (take 14 (path_name (fst (fst e))))"
proof -
  from entries_origin [OF assms] have q: "fst (fst e) \<in> set (files listing)"
    and pl: "plan (fst (fst e)) = Inr (Some e)" by simp_all
  define p where "p = fst (fst e)"
  note f = plan_Some_facts [OF pl, folded p_def]
  from f(5) obtain ymdhms rest dt where
    m: "pat_match (path_name p) = Some (ymdhms, rest)" and t: "strptime ymdhms = Inr dt"
    and b: "snd (snd e) = str_int (unix_ms dt) @ str ''_'' @ rest"
    by blast
  note pm = pat_matchD [OF m]
  have rt: "roundtrip (snd (snd e)) = ascii_digits ymdhms"
    unfolding b using m t by (rule matched_roundtrip)
  from q have n: "path_name p = path_stem p @ str ''.ts''"
    by (simp add: files_set path_suffix_ts_name p_def)
  have "take 14 (path_name p) = ymdhms \<and> 17 \<le> length (path_name p)"
  proof -
    from pm(5) consider (a) "path_name p = ymdhms @ str ''_'' @ rest @ str ''.ts''"
      | (b) "path_name p = ymdhms @ str ''_'' @ rest @ str ''.ts'' @ [newline]"
      by blast
    then show ?thesis
    proof cases
      case a
      with pm(1) show ?thesis by simp
    next
      case b
      with pm(1) show ?thesis by simp
    qed
  qed
  then have n14: "take 14 (path_name p) = ymdhms" and l17: "17 \<le> length (path_name p)"
    by simp_all
  have "length (path_name p) = length (path_stem p) + 3"
    by (subst n) simp
  with l17 have "14 \<le> length (path_stem p)"
    by simp
  then have "take 14 (path_stem p) = take 14 (path_stem p @ str ''.ts'')"
    by simp
  then have s14: "take 14 (path_stem p) = ymdhms"
    using n14 n by simp
  from rt s14 f(2) show "roundtrip (snd (snd e)) = ascii_digits (take 14 (fst (snd e)))"
    by simp
  have "path_stem (snd (fst e)) = snd (snd e)"
    unfolding f(3) by (rule path_stem_ts) (simp add: b)
  with rt n14
  show "roundtrip (path_stem (snd (fst e))) = ascii_digits (take 14 (path_name (fst (fst e))))"
    by (simp add: p_def)
qed

text \<open>
  Claim C1, as the specification states it, fails: the pattern's \<^verbatim>\<open>\d\<close> and
  \<^verbatim>\<open>strptime\<close>'s \<^verbatim>\<open>%Y\<close> accept every decimal digit of Unicode, and \<^verbatim>\<open>int\<close> converts
  it, while the new base name is written with the digits \<^verbatim>\<open>0\<close> to \<^verbatim>\<open>9\<close>.  The file
  whose name is the year 2023 in Arabic-Indic digits (code points 1634, 1632, 1634,
  1635) followed by \<^verbatim>\<open>0615143000_x.ts\<close> matches, its 14 digits are a date and time of
  the calendar, the run emits the new base name \<^verbatim>\<open>1686839400000_x\<close> for it, and the way
  back gives \<^verbatim>\<open>20230615143000\<close>, which is not the original string.
\<close>

theorem roundtrip_counterexample:
  "pat_match ([1634, 1632, 1634, 1635] @ str ''0615143000_x.ts'')
     = Some ([1634, 1632, 1634, 1635] @ str ''0615143000'', str ''x'')
   \<and> valid_timestamp ([1634, 1632, 1634, 1635] @ str ''0615143000'')
   \<and> main [[1634, 1632, 1634, 1635] @ str ''0615143000_x.ts'']
     = (None,
        \<lparr>renames = [(joinpath MIG_DIR ([1634, 1632, 1634, 1635] @ str ''0615143000_x.ts''),
                     joinpath MIG_DIR (str ''1686839400000_x.ts''))],
         sql_updates = [([1634, 1632, 1634, 1635] @ str ''0615143000_x'', str ''1686839400000_x'')],
         stdout = report [((joinpath MIG_DIR ([1634, 1632, 1634, 1635] @ str ''0615143000_x.ts''),
                            joinpath MIG_DIR (str ''1686839400000_x.ts'')),
                           ([1634, 1632, 1634, 1635] @ str ''0615143000_x'', str ''1686839400000_x''))]\<rparr>)
   \<and> roundtrip (str ''1686839400000_x'') = str ''20230615143000''
   \<and> str ''20230615143000'' \<noteq> [1634, 1632, 1634, 1635] @ str ''0615143000''"
  by code_simp

text \<open>
  Claim C1, amended.  For every file name that matches the pattern with 14 digits
  \<^verbatim>\<open>0\<close> to \<^verbatim>\<open>9\<close> that are a date and time of the calendar, \<^verbatim>\<open>strptime\<close> returns a
  datetime, and the new base name made from it gives the 14 digits back: the integer up
  to its first underscore, taken as milliseconds since the epoch and turned into the
  calendar fields of UTC, written as year, month, day, hour, minute and second with
  leading zeros, is the original string.  For every matching name for which \<^verbatim>\<open>strptime\<close>
  returns a datetime, whatever its decimal digits, the way back gives the 14 digits
  written with \<^verbatim>\<open>0\<close> to \<^verbatim>\<open>9\<close>.  So it is for every entry that a run emits: the new
  base name of an SQL entry gives the first 14 characters of its old base name, and the
  new path of a rename entry those of its original file name, written with \<^verbatim>\<open>0\<close> to
  \<^verbatim>\<open>9\<close>; they are the original characters when these are digits \<^verbatim>\<open>0\<close> to \<^verbatim>\<open>9\<close>.
\<close>

theorem roundtrip_timestamp:
  "(pat_match name = Some (ymdhms, rest) \<longrightarrow> valid_timestamp ymdhms \<longrightarrow>
      list_all ascii_digit ymdhms \<longrightarrow>
      (\<exists>dt. strptime ymdhms = Inr dt \<and> roundtrip (str_int (unix_ms dt) @ str ''_'' @ rest) = ymdhms))
   \<and> (pat_match name = Some (ymdhms, rest) \<longrightarrow> strptime ymdhms = Inr dt' \<longrightarrow>
        roundtrip (str_int (unix_ms dt') @ str ''_'' @ rest) = ascii_digits ymdhms)
   \<and> (\<forall>u\<in>set (sql_updates (snd (main listing))).
         roundtrip (snd u) = ascii_digits (take 14 (fst u))
         \<and> (list_all ascii_digit (take 14 (fst u)) \<longrightarrow> roundtrip (snd u) = take 14 (fst u)))
   \<and> (\<forall>r\<in>set (renames (snd (main listing))).
         roundtrip (path_stem (snd r)) = ascii_digits (take 14 (path_name (fst r)))
         \<and> (list_all ascii_digit (take 14 (path_name (fst r))) \<longrightarrow>
              roundtrip (path_stem (snd r)) = take 14 (path_name (fst r))))"
proof -
  have 1: "\<exists>dt. strptime ymdhms = Inr dt \<and> roundtrip (str_int (unix_ms dt) @ str ''_'' @ rest) = ymdhms"
    if v: "valid_timestamp ymdhms" and a: "list_all ascii_digit ymdhms"
  proof -
    from v a have "strptime ymdhms = Inr (fields ymdhms)"
      by (rule strptime_valid)
    moreover have "roundtrip (str_int (unix_ms (fields ymdhms)) @ str ''_'' @ rest) = ymdhms"
      using roundtrip_new_base [OF v, of rest] ascii_digits_ascii [OF a] by simp
    ultimately show ?thesis
      by (intro exI conjI)
  qed
  have 2: "roundtrip (str_int (unix_ms dt') @ str ''_'' @ rest) = ascii_digits ymdhms"
    if "pat_match name = Some (ymdhms, rest)" "strptime ymdhms = Inr dt'"
    using that by (rule matched_roundtrip)
  have 3: "\<forall>u\<in>set (sql_updates (snd (main listing))).
         roundtrip (snd u) = ascii_digits (take 14 (fst u))
         \<and> (list_all ascii_digit (take 14 (fst u)) \<longrightarrow> roundtrip (snd u) = take 14 (fst u))"
  proof (rule ballI)
    fix u
    assume "u \<in> set (sql_updates (snd (main listing)))"
    then obtain e where "e \<in> set (entries (files listing))" "u = snd e"
      by (auto simp: main_plan)
    with entry_roundtrip(1) [of e listing]
    have "roundtrip (snd u) = ascii_digits (take 14 (fst u))"
      by simp
    then show "roundtrip (snd u) = ascii_digits (take 14 (fst u))
         \<and> (list_all ascii_digit (take 14 (fst u)) \<longrightarrow> roundtrip (snd u) = take 14 (fst u))"
      by (simp add: ascii_digits_ascii)
  qed
  have 4: "\<forall>r\<in>set (renames (snd (main listing))).
         roundtrip (path_stem (snd r)) = ascii_digits (take 14 (path_name (fst r)))
         \<and> (list_all ascii_digit (take 14 (path_name (fst r))) \<longrightarrow>
              roundtrip (path_stem (snd r)) = take 14 (path_name (fst r)))"
  proof (rule ballI)
    fix r
    assume "r \<in> set (renames (snd (main listing)))"
    then obtain e where "e \<in> set (entries (files listing))" "r = fst e"
      by (auto simp: main_plan)
    with entry_roundtrip(2) [of e listing]
    have "roundtrip (path_stem (snd r)) = ascii_digits (take 14 (path_name (fst r)))"
      by simp
    then show "roundtrip (path_stem (snd r)) = ascii_digits (take 14 (path_name (fst r)))
         \<and> (list_all ascii_digit (take 14 (path_name (fst r))) \<longrightarrow>
              roundtrip (path_stem (snd r)) = take 14 (path_name (fst r)))"
      by (simp add: ascii_digits_ascii)
  qed
  show ?thesis
    by (intro conjI impI 1 2 3 4)
qed

theorem roundtrip_timestamp_witness:
  "pat_match (str ''20230615143000_create_orders.ts'') = Some (str ''20230615143000'', str ''create_orders'')
   \<and> valid_timestamp (str ''20230615143000'')
   \<and> list_all ascii_digit (str ''20230615143000'')
   \<and> (\<exists>dt. strptime (str ''20230615143000'') = Inr dt
         \<and> roundtrip (str_int (unix_ms dt) @ str ''_'' @ str ''create_orders'') = str ''20230615143000'')
   \<and> (str ''20230615143000_create_orders'', str ''1686839400000_create_orders'')
       \<in> set (sql_updates (snd (main [str ''20230615143000_create_orders.ts''])))
   \<and> list_all ascii_digit (take 14 (str ''20230615143000_create_orders''))
   \<and> roundtrip (str ''1686839400000_create_orders'') = str ''20230615143000''"
proof -
  note t = roundtrip_timestamp [of "str ''20230615143000_create_orders.ts''" "str ''20230615143000''"
      "str ''create_orders''" "fields (str ''20230615143000'')"
      "[str ''20230615143000_create_orders.ts'']"]
  have u: "(str ''20230615143000_create_orders'', str ''1686839400000_create_orders'')
       \<in> set (sql_updates (snd (main [str ''20230615143000_create_orders.ts''])))"
    by (simp add: run_create_orders)
  have a: "list_all ascii_digit (take 14 (str ''20230615143000_create_orders''))"
    by code_simp
  have k: "take 14 (str ''20230615143000_create_orders'') = str ''20230615143000''"
    by code_simp
  note 1 = mp [OF mp [OF mp [OF conjunct1 [OF t] pat_match_create_orders] valid_create_orders]
      ascii_create_orders]
  note b = bspec [OF conjunct1 [OF conjunct2 [OF conjunct2 [OF t]]] u]
  from mp [OF conjunct2 [OF b]] a
  have "roundtrip (snd (str ''20230615143000_create_orders'', str ''1686839400000_create_orders''))
      = take 14 (fst (str ''20230615143000_create_orders'', str ''1686839400000_create_orders''))"
    by (simp only: fst_conv)
  then have 2: "roundtrip (str ''1686839400000_create_orders'') = str ''20230615143000''"
    by (simp only: fst_conv snd_conv k)
  show ?thesis
    by (rule conjI [OF pat_match_create_orders conjI [OF valid_create_orders
          conjI [OF ascii_create_orders conjI [OF 1 conjI [OF u conjI [OF a 2]]]]]])
qed

end
